theory Spec2Isabelle
  imports Complex_Main
begin

section \<open>Values, activities and events\<close>

text \<open>
  JavaScript values as far as the planning dialog stores and compares them. An
  object is the list of its own properties in insertion order, which is the order
  \<open>JSON.stringify\<close> writes them in. Numbers are integers here: the only numbers the
  dialog computes with are millisecond timestamps.
\<close>

datatype jsval =
  JUndefined | JNull | JBool bool | JNum int | JStr string
  | JArr "jsval list" | JObj "(string \<times> jsval) list"

type_synonym jsobj = "(string \<times> jsval) list"

text \<open>
  The fields of an incoming activity that the dialog reads. An absent field
  (\<open>undefined\<close>) is \<open>None\<close>. \<open>accountId\<close> is the \<open>id\<close> of a channel or conversation
  account; \<open>activityType\<close>, \<open>fromAccount\<close>, \<open>activityText\<close>, \<open>activityName\<close> and
  \<open>activityValue\<close> are the activity's \<open>type\<close>, \<open>from\<close>, \<open>text\<close>, \<open>name\<close> and \<open>value\<close>.
\<close>

record ChannelAccount =
  accountId :: "string option"

record Activity =
  activityType :: "string option"
  channelId :: "string option"
  fromAccount :: "ChannelAccount option"
  conversation :: "ChannelAccount option"
  recipient :: "ChannelAccount option"
  membersAdded :: "ChannelAccount list option"
  membersRemoved :: "ChannelAccount list option"
  activityText :: "string option"
  activityName :: "string option"
  activityValue :: jsval

text \<open>The activity types of the Bot Framework schema that the dialog tests for.\<close>

definition ActivityTypes_Message :: string where
  "ActivityTypes_Message = ''message''"

definition ActivityTypes_Event :: string where
  "ActivityTypes_Event = ''event''"

definition ActivityTypes_ConversationUpdate :: string where
  "ActivityTypes_ConversationUpdate = ''conversationUpdate''"

text \<open>
  A recognizer result: the utterance (\<open>text\<close>), the intents with their scores and the
  entities, both as objects in property order.
\<close>

record RecognizerResult =
  resultText :: string
  intents :: "(string \<times> real) list"
  entities :: jsobj

datatype EventValue = NoValue | JSValue jsval | Recognized RecognizerResult

record DialogEvent =
  eventName :: "string option"
  eventValue :: EventValue
  bubble :: bool

text \<open>
  Modelled from the spec: the event names of \<open>PlanningEventNames\<close>, declared in
  \<open>planningContext\<close>. The specification names the five events the rule evaluator
  dispatches on.
\<close>

definition PlanningEventNames_beginDialog :: string where
  "PlanningEventNames_beginDialog = ''beginDialog''"

definition PlanningEventNames_consultDialog :: string where
  "PlanningEventNames_consultDialog = ''consultDialog''"

definition PlanningEventNames_activityReceived :: string where
  "PlanningEventNames_activityReceived = ''activityReceived''"

definition PlanningEventNames_utteranceRecognized :: string where
  "PlanningEventNames_utteranceRecognized = ''utteranceRecognized''"

definition PlanningEventNames_fallback :: string where
  "PlanningEventNames_fallback = ''fallback''"

section \<open>Plans and plan change-lists\<close>

record DialogInstance =
  instance_id :: string

record PlanStepState =
  dialogId :: string
  stepOptions :: jsval
  dialogStack :: "DialogInstance list option"

record PlanState =
  planSteps :: "PlanStepState list"

text \<open>
  Modelled from the spec: the enumeration \<open>PlanChangeType\<close> is declared in
  \<open>planningContext\<close>, which the planning dialog imports. Its members are the change
  types the dialog's code and the specification name.
\<close>

datatype PlanChangeType =
  newPlan | doSteps | doStepsBeforeTags | doStepsLater | endPlan | replacePlan

text \<open>
  A \<open>PlanChangeList\<close> as the planning dialog reads it: the change type, the steps,
  and the optional lists of matched intents and entities. An absent list is \<open>None\<close>;
  the code reads it as \<open>x || []\<close>.
\<close>

record PlanChangeList =
  changeType :: PlanChangeType
  steps :: "PlanStepState list"
  intentsMatched :: "string list option"
  entitiesMatched :: "string list option"

definition orEmpty :: "'a list option \<Rightarrow> 'a list" where
  "orEmpty v = (case v of None \<Rightarrow> [] | Some xs \<Rightarrow> xs)"

section \<open>Best-match selection\<close>

text \<open>
  The body of the loop of \<open>findBestChange\<close>: whether \<open>change\<close> is better than the
  current \<open>top\<close> (\<open>None\<close> while \<open>top\<close> is still undefined).
\<close>

definition better :: "PlanChangeList option \<Rightarrow> PlanChangeList \<Rightarrow> bool" where
  "better topChange change =
     (case topChange of
        None \<Rightarrow> True
      | Some t \<Rightarrow>
          (if length (orEmpty (intentsMatched change)) > length (orEmpty (intentsMatched t))
           then True
           else if length (orEmpty (intentsMatched change)) = length (orEmpty (intentsMatched t))
           then length (orEmpty (entitiesMatched change)) > length (orEmpty (entitiesMatched t))
           else False))"

text \<open>
  The \<open>for\<close> loop of \<open>findBestChange\<close>, over the remaining changes, with the loop
  counter \<open>i\<close> and the variables \<open>top\<close> and \<open>topIndex\<close>.
\<close>

fun findBestChange_loop ::
  "PlanChangeList list \<Rightarrow> nat \<Rightarrow> PlanChangeList option \<Rightarrow> int \<Rightarrow> int" where
  "findBestChange_loop [] i topChange topIndex = topIndex"
| "findBestChange_loop (change # rest) i topChange topIndex =
     (if better topChange change
      then findBestChange_loop rest (Suc i) (Some change) (int i)
      else findBestChange_loop rest (Suc i) topChange topIndex)"

definition findBestChange :: "PlanChangeList list \<Rightarrow> int" where
  "findBestChange changes = findBestChange_loop changes 0 None (- 1)"

text \<open>The inner loop of \<open>intentsOverlap\<close>: is some element of \<open>i2\<close> found in \<open>i1\<close>.\<close>

fun intentsOverlap_loop :: "string list \<Rightarrow> string list \<Rightarrow> bool" where
  "intentsOverlap_loop i1 [] = False"
| "intentsOverlap_loop i1 (x # xs) = (if x \<in> set i1 then True else intentsOverlap_loop i1 xs)"

definition intentsOverlap :: "PlanChangeList \<Rightarrow> PlanChangeList \<Rightarrow> bool" where
  "intentsOverlap c1 c2 =
     (let i1 = orEmpty (intentsMatched c1); i2 = orEmpty (intentsMatched c2)
      in if length i2 > 0 \<and> length i1 > 0 then intentsOverlap_loop i1 i2
         else if length i2 = length i1 then True
         else False)"

text \<open>\<open>xs.splice(i, 1)\<close>: the list without its element at index \<open>i\<close>.\<close>

definition splice1 :: "nat \<Rightarrow> 'a list \<Rightarrow> 'a list" where
  "splice1 i xs = take i xs @ drop (Suc i) xs"

text \<open>
  The backwards loop that removes every remaining change overlapping the one just
  selected. It visits the last element first and keeps the order of the others.
\<close>

fun removeOverlapping :: "PlanChangeList \<Rightarrow> PlanChangeList list \<Rightarrow> PlanChangeList list" where
  "removeOverlapping change [] = []"
| "removeOverlapping change (c # cs) =
     (let rest = removeOverlapping change cs
      in if intentsOverlap change c then rest else c # rest)"

subsection \<open>Termination of the selection loop\<close>

lemma removeOverlapping_filter:
  "removeOverlapping change cs = filter (\<lambda>c. \<not> intentsOverlap change c) cs"
  by (induction cs) (simp_all add: Let_def)

lemma findBestChange_loop_bound:
  "topIndex < int i \<Longrightarrow>
   findBestChange_loop cs i topChange topIndex < int i + int (length cs)"
  by (induction cs i topChange topIndex rule: findBestChange_loop.induct) auto

lemma findBestChange_less: "0 \<le> findBestChange cs \<Longrightarrow> nat (findBestChange cs) < length cs"
  using findBestChange_loop_bound [of "- 1" 0 cs None] by (simp add: findBestChange_def)

lemma length_splice1: "i < length xs \<Longrightarrow> length (splice1 i xs) = length xs - 1"
  by (simp add: splice1_def)

lemma length_removeOverlapping: "length (removeOverlapping c cs) \<le> length cs"
  by (simp add: removeOverlapping_filter)

lemma bestLoop_step_shrinks:
  assumes "0 \<le> findBestChange cs"
  shows "length (removeOverlapping c (splice1 (nat (findBestChange cs)) cs)) < length cs"
proof -
  have lt: "nat (findBestChange cs) < length cs"
    using assms by (rule findBestChange_less)
  have "length (removeOverlapping c (splice1 (nat (findBestChange cs)) cs))
          \<le> length (splice1 (nat (findBestChange cs)) cs)"
    by (rule length_removeOverlapping)
  also have "\<dots> = length cs - 1" using lt by (rule length_splice1)
  also have "\<dots> < length cs" using lt by simp
  finally show ?thesis .
qed

text \<open>
  The \<open>while (true)\<close> loop of \<open>queueBestMatches\<close>. Each entry of
  \<open>appliedChanges\<close> is the pair \<open>{ index, change }\<close>: the index is the position of
  the change in \<open>allChanges\<close> at the moment it was selected.
\<close>

function bestLoop ::
  "PlanChangeList list \<Rightarrow> (nat \<times> PlanChangeList) list \<Rightarrow> (nat \<times> PlanChangeList) list" where
  "bestLoop allChanges appliedChanges =
     (let index = findBestChange allChanges
      in if index \<ge> 0
         then let change = allChanges ! nat index
              in bestLoop (removeOverlapping change (splice1 (nat index) allChanges))
                   (appliedChanges @ [(nat index, change)])
         else appliedChanges)"
  by pat_completeness auto

termination bestLoop
  by (relation "measure (\<lambda>(allChanges, appliedChanges). length allChanges)")
     (simp_all add: bestLoop_step_shrinks)

declare bestLoop.simps [simp del]

text \<open>The selection part of \<open>queueBestMatches\<close>, with its guard on an empty list.\<close>

definition findBestMatches :: "PlanChangeList list \<Rightarrow> (nat \<times> PlanChangeList) list" where
  "findBestMatches allChanges = (if length allChanges > 0 then bestLoop allChanges [] else [])"

section \<open>Planning context, collaborators and execution\<close>

text \<open>
  A thrown JavaScript error: its \<open>message\<close> and its \<open>stack\<close> (\<open>errorStack\<close>).
\<close>

record JSError =
  message :: string
  errorStack :: string

datatype DialogTurnStatus = Empty | Waiting | Complete | Cancelled

text \<open>A turn result. The optional flag \<open>parentEnded\<close> is \<open>False\<close> when it is absent.\<close>

record DialogTurnResult =
  status :: DialogTurnStatus
  result :: jsval
  parentEnded :: bool

text \<open>
  What the planning dialog reaches through its planning context: the activity of
  the turn, the dialog stack, the persisted planning state of the active instance
  (\<open>options\<close>, \<open>result\<close> as \<open>stateResult\<close>, the plan and the saved plans) and the queue
  of changes of the turn.
\<close>

record PlanningContext =
  activity :: Activity
  stack :: "DialogInstance list"
  options :: jsval
  stateResult :: jsval
  plan :: "PlanState option"
  savedPlans :: "PlanState list"
  changes :: "PlanChangeList list"

text \<open>
  A call of a collaborator returns a value or throws, and leaves the context as it
  changed it.
\<close>

type_synonym 'a ext = "PlanningContext \<Rightarrow> (JSError + 'a) \<times> PlanningContext"

datatype DialogConsultationDesire = canProcess | shouldProcess

text \<open>
  A rule: its steps (the ids of the dialogs to install) and its \<open>evaluate\<close> method,
  which reads the planning context and the event and returns a list of change-lists
  or \<open>undefined\<close> (\<open>None\<close>), or throws.
\<close>

record PlanningRule =
  ruleSteps :: "string list"
  evaluate :: "PlanningContext \<Rightarrow> DialogEvent \<Rightarrow> JSError + PlanChangeList list option"

text \<open>
  The calls to collaborators, in the order they are made. The log is kept beside the
  context, so that no collaborator can change it.
\<close>

datatype Call =
  EvaluateRule nat "string option" | Recognize | ApplyChanges | StepConsult | StepProcess
  | StepBegin string | EndStep | Reprompt | CancelAllDialogs string jsval | EndDialog jsval

record World =
  ctx :: PlanningContext
  installedDependencies :: bool
  dialogs :: "string list"
  calls :: "Call list"

text \<open>
  An asynchronous method of the dialog: from a world it returns a value or throws,
  in a new world. \<open>None\<close> stands for a call that does not return.
\<close>

type_synonym 'a exec = "World \<Rightarrow> ((JSError + 'a) \<times> World) option"

definition ret :: "'a \<Rightarrow> 'a exec" where
  "ret x w = Some (Inr x, w)"

definition throw :: "JSError \<Rightarrow> 'a exec" where
  "throw e w = Some (Inl e, w)"

definition bind :: "'a exec \<Rightarrow> ('a \<Rightarrow> 'b exec) \<Rightarrow> 'b exec" where
  "bind m f w =
     (case m w of
        None \<Rightarrow> None
      | Some (Inl e, w') \<Rightarrow> Some (Inl e, w')
      | Some (Inr x, w') \<Rightarrow> f x w')"

text \<open>\<open>try { m } catch (err) { h err }\<close>.\<close>

definition tryCatch :: "'a exec \<Rightarrow> (JSError \<Rightarrow> 'a exec) \<Rightarrow> 'a exec" where
  "tryCatch m h w =
     (case m w of
        None \<Rightarrow> None
      | Some (Inl e, w') \<Rightarrow> h e w'
      | Some (Inr x, w') \<Rightarrow> Some (Inr x, w'))"

definition call :: "Call \<Rightarrow> 'a ext \<Rightarrow> 'a exec" where
  "call c f w =
     (case f (ctx w) of (r, p) \<Rightarrow> Some (r, w\<lparr>ctx := p, calls := calls w @ [c]\<rparr>))"

text \<open>
  Modelled from the spec: \<open>PlanningContext.queueChanges\<close> buffers the change-list in
  the queue of the turn, and \<open>hasPlans\<close> tells whether an active or a saved plan exists.
\<close>

definition queueChanges :: "PlanChangeList \<Rightarrow> unit exec" where
  "queueChanges change w =
     Some (Inr (), w\<lparr>ctx := (ctx w)\<lparr>changes := changes (ctx w) @ [change]\<rparr>\<rparr>)"

definition hasPlans :: "PlanningContext \<Rightarrow> bool" where
  "hasPlans p = (plan p \<noteq> None \<or> length (savedPlans p) > 0)"

text \<open>\<open>await rule.evaluate(planning, event)\<close> for the rule at index \<open>i\<close>.\<close>

definition evaluateRule ::
  "PlanningRule \<Rightarrow> nat \<Rightarrow> DialogEvent \<Rightarrow> PlanChangeList list option exec" where
  "evaluateRule rule i event =
     call (EvaluateRule i (eventName event)) (\<lambda>p. (evaluate rule p event, p))"

section \<open>Rule processing\<close>

text \<open>The loop of \<open>queueFirstMatch\<close> over the rules from index \<open>i\<close> on.\<close>

fun queueFirstMatch_loop :: "PlanningRule list \<Rightarrow> nat \<Rightarrow> DialogEvent \<Rightarrow> bool exec" where
  "queueFirstMatch_loop [] i event = ret False"
| "queueFirstMatch_loop (rule # rest) i event =
     bind (evaluateRule rule i event) (\<lambda>changes.
       if changes \<noteq> None \<and> length (the changes) > 0
       then bind (queueChanges (the changes ! 0)) (\<lambda>_. ret True)
       else queueFirstMatch_loop rest (Suc i) event)"

definition queueFirstMatch :: "PlanningRule list \<Rightarrow> DialogEvent \<Rightarrow> bool exec" where
  "queueFirstMatch rules event = queueFirstMatch_loop rules 0 event"

text \<open>The first loop of \<open>queueBestMatches\<close>: the proposed changes of all rules.\<close>

fun allChanges_loop ::
  "PlanningRule list \<Rightarrow> nat \<Rightarrow> DialogEvent \<Rightarrow> PlanChangeList list \<Rightarrow>
   PlanChangeList list exec" where
  "allChanges_loop [] i event allChanges = ret allChanges"
| "allChanges_loop (rule # rest) i event allChanges =
     bind (evaluateRule rule i event) (\<lambda>changes.
       allChanges_loop rest (Suc i) event
         (if changes \<noteq> None then allChanges @ the changes else allChanges))"

definition isPlanStart :: "PlanChangeList \<Rightarrow> bool" where
  "isPlanStart change \<longleftrightarrow> changeType change = newPlan \<or> changeType change = replacePlan"

text \<open>
  The loop that looks for the first change that starts a new plan: the change it
  queues, if any, and \<open>sorted\<close> after the \<open>splice\<close>.
\<close>

fun queueNewPlan_loop ::
  "(nat \<times> PlanChangeList) list \<Rightarrow> PlanChangeList option \<times> (nat \<times> PlanChangeList) list" where
  "queueNewPlan_loop [] = (None, [])"
| "queueNewPlan_loop (entry # rest) =
     (if changeType (snd entry) = newPlan \<or> changeType (snd entry) = replacePlan
      then (Some (snd entry), rest)
      else (case queueNewPlan_loop rest of (queued, rest') \<Rightarrow> (queued, entry # rest')))"

text \<open>
  The loop over the additional changes: the changes it queues, in order. A
  \<open>newPlan\<close> or \<open>replacePlan\<close> change is queued as \<open>doStepsLater\<close>; a change of a type
  the \<open>switch\<close> has no case for is not queued.
\<close>

fun queueAdditional :: "(nat \<times> PlanChangeList) list \<Rightarrow> PlanChangeList list" where
  "queueAdditional [] = []"
| "queueAdditional (entry # rest) =
     (case changeType (snd entry) of
        doSteps \<Rightarrow> snd entry # queueAdditional rest
      | doStepsBeforeTags \<Rightarrow> snd entry # queueAdditional rest
      | doStepsLater \<Rightarrow> snd entry # queueAdditional rest
      | newPlan \<Rightarrow> (snd entry)\<lparr>changeType := doStepsLater\<rparr> # queueAdditional rest
      | replacePlan \<Rightarrow> (snd entry)\<lparr>changeType := doStepsLater\<rparr> # queueAdditional rest
      | endPlan \<Rightarrow> queueAdditional rest)"

text \<open>
  The changes that the second half of \<open>queueBestMatches\<close> passes to
  \<open>planning.queueChanges\<close>, in order; none when there is no winner.
  \<open>Array.prototype.sort\<close> is stable.
\<close>

definition queuedChanges :: "(nat \<times> PlanChangeList) list \<Rightarrow> PlanChangeList list" where
  "queuedChanges appliedChanges =
     (if length appliedChanges > 0
      then let sorted = sort_key fst appliedChanges
           in if length sorted > 1
              then (case queueNewPlan_loop sorted of
                      (queued, rest) \<Rightarrow>
                        (case queued of None \<Rightarrow> [] | Some change \<Rightarrow> [change])
                          @ queueAdditional rest)
              else [snd (sorted ! 0)]
      else [])"

fun queueAll :: "PlanChangeList list \<Rightarrow> unit exec" where
  "queueAll [] = ret ()"
| "queueAll (change # rest) = bind (queueChanges change) (\<lambda>_. queueAll rest)"

definition queueBestMatches :: "PlanningRule list \<Rightarrow> DialogEvent \<Rightarrow> bool exec" where
  "queueBestMatches rules event =
     bind (allChanges_loop rules 0 event []) (\<lambda>allChanges.
       let appliedChanges = findBestMatches allChanges
       in if length appliedChanges > 0
          then bind (queueAll (queuedChanges appliedChanges)) (\<lambda>_. ret True)
          else ret False)"

text \<open>
  \<open>onRecognize\<close>: the result of the assigned recognizer, or the default result with
  the single intent \<open>None\<close>.
\<close>

definition noneIntent :: "Activity \<Rightarrow> RecognizerResult" where
  "noneIntent a =
     \<lparr>resultText = (case activityText a of None \<Rightarrow> [] | Some t \<Rightarrow> (if t = [] then [] else t)),
      intents = [(''None'', 0.0)],
      entities = []\<rparr>"

definition onRecognize ::
  "(Activity \<Rightarrow> JSError + RecognizerResult) option \<Rightarrow> RecognizerResult exec" where
  "onRecognize recognizer w =
     (case recognizer of
        Some recognize \<Rightarrow> call Recognize (\<lambda>p. (recognize (activity p), p)) w
      | None \<Rightarrow> ret (noneIntent (activity (ctx w))) w)"

text \<open>
  \<open>evaluateRules\<close>. The method calls itself with the event it dispatches next; the
  first argument bounds the depth of these calls, and \<open>None\<close> is returned when the
  bound is reached.
\<close>

fun evaluateRules ::
  "nat \<Rightarrow> PlanningRule list \<Rightarrow> (Activity \<Rightarrow> JSError + RecognizerResult) option \<Rightarrow>
   DialogEvent \<Rightarrow> bool exec" where
  "evaluateRules 0 rules recognizer event = (\<lambda>w. None)"
| "evaluateRules (Suc n) rules recognizer event =
     (if eventName event = Some PlanningEventNames_beginDialog
         \<or> eventName event = Some PlanningEventNames_consultDialog
      then bind (queueFirstMatch rules event) (\<lambda>handled.
             if \<not> handled
             then evaluateRules n rules recognizer
                    \<lparr>eventName = Some PlanningEventNames_activityReceived,
                     eventValue = NoValue, bubble = False\<rparr>
             else ret handled)
      else if eventName event = Some PlanningEventNames_activityReceived
      then bind (queueFirstMatch rules event) (\<lambda>handled.
             if \<not> handled
             then (\<lambda>w.
               if activityType (activity (ctx w)) = Some ActivityTypes_Message
               then bind (onRecognize recognizer) (\<lambda>recognized.
                      evaluateRules n rules recognizer
                        \<lparr>eventName = Some PlanningEventNames_utteranceRecognized,
                         eventValue = Recognized recognized, bubble = False\<rparr>) w
               else if activityType (activity (ctx w)) = Some ActivityTypes_Event
               then evaluateRules n rules recognizer
                      \<lparr>eventName = activityName (activity (ctx w)),
                       eventValue = JSValue (activityValue (activity (ctx w))),
                       bubble = False\<rparr> w
               else ret handled w)
             else ret handled)
      else if eventName event = Some PlanningEventNames_utteranceRecognized
      then bind (queueBestMatches rules event) (\<lambda>handled.
             if \<not> handled
             then evaluateRules n rules recognizer
                    \<lparr>eventName = Some PlanningEventNames_fallback,
                     eventValue = eventValue event, bubble = False\<rparr>
             else ret handled)
      else if eventName event = Some PlanningEventNames_fallback
      then (\<lambda>w. if \<not> hasPlans (ctx w) then queueFirstMatch rules event w else ret False w)
      else queueFirstMatch rules event)"

section \<open>The turn driver\<close>

subsection \<open>JSON documents\<close>

text \<open>Truthiness of a value, as \<open>if (v)\<close>, \<open>!v\<close> and \<open>v || w\<close> test it.\<close>

fun truthy :: "jsval \<Rightarrow> bool" where
  "truthy JUndefined = False"
| "truthy JNull = False"
| "truthy (JBool b) = b"
| "truthy (JNum n) = (n \<noteq> 0)"
| "truthy (JStr s) = (s \<noteq> [])"
| "truthy (JArr xs) = True"
| "truthy (JObj kvs) = True"

text \<open>Reading a property (\<open>undefined\<close> when absent) and assigning one.\<close>

fun getProp :: "jsobj \<Rightarrow> string \<Rightarrow> jsval" where
  "getProp [] k = JUndefined"
| "getProp ((k', v) # rest) k = (if k' = k then v else getProp rest k)"

fun setProp :: "jsobj \<Rightarrow> string \<Rightarrow> jsval \<Rightarrow> jsobj" where
  "setProp [] k v = [(k, v)]"
| "setProp ((k', v') # rest) k v = (if k' = k then (k, v) # rest else (k', v') # setProp rest k v)"

text \<open>The decimal digits of a number, as \<open>JSON.stringify\<close> and template strings write it.\<close>

function showNat :: "nat \<Rightarrow> string" where
  "showNat n = (if n < 10 then [''0123456789'' ! n] else showNat (n div 10) @ [''0123456789'' ! (n mod 10)])"
  by pat_completeness auto

termination
  by (relation "measure (\<lambda>n. n)") auto

declare showNat.simps [simp del]

definition showInt :: "int \<Rightarrow> string" where
  "showInt n = (if n < 0 then CHR ''-'' # showNat (nat (- n)) else showNat (nat n))"

text \<open>
  A string in double quotes, with the quote and the backslash escaped. Control
  characters, which \<open>JSON.stringify\<close> escapes too, are left as they are.
\<close>

fun escape :: "string \<Rightarrow> string" where
  "escape [] = []"
| "escape (c # cs) =
     (if c = CHR 0x22 \<or> c = CHR 0x5C then CHR 0x5C # c # escape cs else c # escape cs)"

definition quote :: "string \<Rightarrow> string" where
  "quote s = CHR 0x22 # escape s @ [CHR 0x22]"

fun joinComma :: "string list \<Rightarrow> string" where
  "joinComma [] = []"
| "joinComma [s] = s"
| "joinComma (s # t # rest) = s @ CHR '','' # joinComma (t # rest)"

text \<open>
  \<open>JSON.stringify\<close>: \<open>None\<close> is the result \<open>undefined\<close>. A property whose value has no
  JSON text is left out of an object; such an element of an array is written \<open>null\<close>.
  The properties of an object are written in their order.
\<close>

primrec JSON_stringify :: "jsval \<Rightarrow> string option" where
  "JSON_stringify JUndefined = None"
| "JSON_stringify JNull = Some ''null''"
| "JSON_stringify (JBool b) = Some (if b then ''true'' else ''false'')"
| "JSON_stringify (JNum n) = Some (showInt n)"
| "JSON_stringify (JStr s) = Some (quote s)"
| "JSON_stringify (JArr xs) =
     Some (CHR ''['' # joinComma (map (\<lambda>s. case s of None \<Rightarrow> ''null'' | Some t \<Rightarrow> t)
                                   (map JSON_stringify xs)) @ '']'')"
| "JSON_stringify (JObj kvs) =
     Some (CHR ''{'' # joinComma (concat (map (\<lambda>ks. case snd ks of None \<Rightarrow> []
                                                  | Some t \<Rightarrow> [quote (fst ks) @ CHR '':'' # t])
                                   (map (map_prod id JSON_stringify) kvs))) @ ''}'')"

text \<open>
  \<open>JSON.parse(JSON.stringify(v))\<close>: a deep copy of a document, without the
  properties that \<open>JSON.stringify\<close> leaves out.
\<close>

primrec jsonClone :: "jsval \<Rightarrow> jsval" where
  "jsonClone JUndefined = JUndefined"
| "jsonClone JNull = JNull"
| "jsonClone (JBool b) = JBool b"
| "jsonClone (JNum n) = JNum n"
| "jsonClone (JStr s) = JStr s"
| "jsonClone (JArr xs) = JArr (map (\<lambda>v. if v = JUndefined then JNull else v) (map jsonClone xs))"
| "jsonClone (JObj kvs) =
     JObj (filter (\<lambda>kv. snd kv \<noteq> JUndefined) (map (map_prod id jsonClone) kvs))"

definition cloneObject :: "jsobj \<Rightarrow> jsobj" where
  "cloneObject obj = (case jsonClone (JObj obj) of JObj obj' \<Rightarrow> obj' | _ \<Rightarrow> [])"

subsection \<open>Stored state and storage\<close>

record StoredBotState =
  userState :: jsobj
  conversationState :: jsobj

record BotStateStorageKeys =
  userStateKey :: string
  conversationStateKey :: string

text \<open>
  The errors of a turn: the three that the dialog raises itself, the \<open>TypeError\<close> of
  reading a property of \<open>undefined\<close>, and an error thrown by the storage provider or
  by a dialog.
\<close>

datatype TurnError =
  StorageNotAssigned | UserIdNotFound | ConversationIdNotFound | TypeError | Thrown JSError

definition errorMessage :: "TurnError \<Rightarrow> string" where
  "errorMessage e =
     (case e of
        StorageNotAssigned \<Rightarrow>
          ''PlanningDialog: unable to load the bots state. PlanningDialog.storage not assigned.''
      | UserIdNotFound \<Rightarrow>
          ''PlanningDialog: unable to load the bots state. The users ID couldn't be found.''
      | ConversationIdNotFound \<Rightarrow>
          ''PlanningDialog: unable to load the bots state. The conversations ID couldn't be found.''
      | TypeError \<Rightarrow> ''Cannot read property of undefined''
      | Thrown err \<Rightarrow> message err)"

text \<open>
  A storage provider over a store of type \<open>'s\<close>: \<open>read\<close> returns the documents found
  under the keys, \<open>write\<close> takes the documents to store by key; both may fail.
\<close>

record 's Storage =
  storageRead :: "string list \<Rightarrow> 's \<Rightarrow> (TurnError + (string \<times> jsobj) list) \<times> 's"
  storageWrite :: "(string \<times> jsobj) list \<Rightarrow> 's \<Rightarrow> (TurnError + unit) \<times> 's"

text \<open>
  What a turn can change outside of its own variables: the store, and the log of
  the calls made to the storage provider and to the dialog stack.
\<close>

datatype TurnCall =
  StorageRead "string list" | StorageWrite "(string \<times> jsobj) list" | ContinueDialog | BeginDialog

record 's TurnWorld =
  store :: 's
  turnCalls :: "TurnCall list"

fun lookupItem :: "(string \<times> jsobj) list \<Rightarrow> string \<Rightarrow> jsobj option" where
  "lookupItem [] k = None"
| "lookupItem ((k', v) # rest) k = (if k' = k then Some v else lookupItem rest k)"

fun setItem :: "(string \<times> jsobj) list \<Rightarrow> string \<Rightarrow> jsobj \<Rightarrow> (string \<times> jsobj) list" where
  "setItem [] k v = [(k, v)]"
| "setItem ((k', v') # rest) k v = (if k' = k then (k, v) # rest else (k', v') # setItem rest k v)"

definition loadBotState ::
  "'s Storage \<Rightarrow> BotStateStorageKeys \<Rightarrow> 's TurnWorld \<Rightarrow> (TurnError + StoredBotState) \<times> 's TurnWorld" where
  "loadBotState storage keys w =
     (case storageRead storage [userStateKey keys, conversationStateKey keys] (store w) of
        (r, s) \<Rightarrow>
          (let w' = w\<lparr>store := s,
                 turnCalls := turnCalls w @ [StorageRead [userStateKey keys, conversationStateKey keys]]\<rparr>
           in case r of
                Inl e \<Rightarrow> (Inl e, w')
              | Inr data \<Rightarrow>
                  (Inr \<lparr>userState = (case lookupItem data (userStateKey keys) of
                                        None \<Rightarrow> [] | Some d \<Rightarrow> d),
                        conversationState = (case lookupItem data (conversationStateKey keys) of
                                        None \<Rightarrow> [] | Some d \<Rightarrow> d)\<rparr>, w')))"

text \<open>\<open>if (eTag) { obj.eTag = eTag }\<close>.\<close>

definition stampETag :: "string option \<Rightarrow> jsobj \<Rightarrow> jsobj" where
  "stampETag eTag obj =
     (case eTag of
        None \<Rightarrow> obj
      | Some t \<Rightarrow> if t \<noteq> [] then setProp obj ''eTag'' (JStr t) else obj)"

text \<open>
  \<open>saveBotState\<close>. Its result carries \<open>newState\<close> as the method leaves it, since it
  assigns the \<open>eTag\<close> of the documents it writes.
\<close>

definition saveBotState ::
  "'s Storage \<Rightarrow> BotStateStorageKeys \<Rightarrow> StoredBotState \<Rightarrow> StoredBotState option \<Rightarrow>
   string option \<Rightarrow> 's TurnWorld \<Rightarrow> (TurnError + unit) \<times> StoredBotState \<times> 's TurnWorld" where
  "saveBotState storage keys newState oldState eTag w =
     (let (save, changes, newState') =
        (case oldState of
           Some old \<Rightarrow>
             (let (save1, changes1, new1) =
                (if JSON_stringify (JObj (userState newState))
                      \<noteq> JSON_stringify (JObj (userState old))
                 then (True,
                       setItem [] (userStateKey keys) (stampETag eTag (userState newState)),
                       newState\<lparr>userState := stampETag eTag (userState newState)\<rparr>)
                 else (False, [], newState))
              in if JSON_stringify (JObj (conversationState new1))
                      \<noteq> JSON_stringify (JObj (conversationState old))
                 then (True,
                       setItem changes1 (conversationStateKey keys)
                         (stampETag eTag (conversationState new1)),
                       new1\<lparr>conversationState := stampETag eTag (conversationState new1)\<rparr>)
                 else (save1, changes1, new1))
         | None \<Rightarrow>
             (let new1 = newState\<lparr>userState := stampETag eTag (userState newState),
                         conversationState := stampETag eTag (conversationState newState)\<rparr>
              in (True,
                  setItem (setItem [] (userStateKey keys) (userState new1))
                    (conversationStateKey keys) (conversationState new1),
                  new1)))
      in if save
         then (case storageWrite storage changes (store w) of
                 (r, s) \<Rightarrow>
                   (r, newState', w\<lparr>store := s, turnCalls := turnCalls w @ [StorageWrite changes]\<rparr>))
         else (Inr (), newState', w))"

subsection \<open>Storage keys\<close>

text \<open>A string option is truthy when it is a non-empty string.\<close>

definition truthyString :: "string option \<Rightarrow> bool" where
  "truthyString v = (case v of None \<Rightarrow> False | Some s \<Rightarrow> s \<noteq> [])"

text \<open>\<open>x && x.id ? x.id : undefined\<close>.\<close>

definition idOrUndefined :: "ChannelAccount option \<Rightarrow> string option" where
  "idOrUndefined account =
     (case account of
        None \<Rightarrow> None
      | Some a \<Rightarrow> if truthyString (accountId a) then accountId a else None)"

text \<open>A value in a template string; \<open>undefined\<close> is written \<open>undefined\<close>.\<close>

definition templateString :: "string option \<Rightarrow> string" where
  "templateString v = (case v of None \<Rightarrow> ''undefined'' | Some s \<Rightarrow> s)"

text \<open>
  The part of \<open>getStorageKeys\<close> that patches the user id of a conversation update.
  The filter reads \<open>activity.recipient.id\<close> once for each member, so it throws a
  \<open>TypeError\<close> when there is a member and no recipient.
\<close>

definition patchUserId :: "Activity \<Rightarrow> string option \<Rightarrow> TurnError + string option" where
  "patchUserId a userId =
     (if activityType a = Some ActivityTypes_ConversationUpdate
      then let members = (case membersAdded a of
                            Some added \<Rightarrow> added
                          | None \<Rightarrow> (case membersRemoved a of Some removed \<Rightarrow> removed | None \<Rightarrow> []))
           in if members \<noteq> [] \<and> recipient a = None then Inl TypeError
              else let users = filter (\<lambda>u. accountId u \<noteq> accountId (the (recipient a))) members;
                       found = (if truthyString userId
                                then filter (\<lambda>u. accountId u = userId) users else [])
                   in if length found = 0 \<and> length users > 0
                      then Inr (accountId (users ! 0))
                      else Inr userId
      else Inr userId)"

definition getStorageKeys :: "Activity \<Rightarrow> TurnError + BotStateStorageKeys" where
  "getStorageKeys a =
     (let userId = idOrUndefined (fromAccount a);
          conversationId = idOrUndefined (conversation a)
      in case patchUserId a userId of
           Inl e \<Rightarrow> Inl e
         | Inr userId' \<Rightarrow>
             if \<not> truthyString userId' then Inl UserIdNotFound
             else if \<not> truthyString conversationId then Inl ConversationIdNotFound
             else Inr \<lparr>userStateKey =
                         templateString (channelId a) @ ''/users/'' @ templateString userId',
                       conversationStateKey =
                         templateString (channelId a) @ ''/conversations/''
                           @ templateString conversationId\<rparr>)"

subsection \<open>The turn\<close>

text \<open>
  The statements of \<open>onTurn\<close> between the loading of the state and the creation of
  the dialog context: the clone, the check for an expired conversation, the stamp of
  the last access and the check of the dialog stack. \<open>now\<close> is the time of \<open>new Date()\<close>
  in milliseconds. The result is the pair of \<open>state\<close> and \<open>newState\<close> as these
  statements leave them; the dialog context is created over \<open>newState\<close>.

  The two operations of the runtime's \<open>Date\<close> are arguments: \<open>dateTime v\<close> is
  \<open>new Date(v).getTime()\<close> for the value \<open>v\<close> of \<open>_lastAccess\<close>, the time in
  milliseconds, or \<open>None\<close> when the date is invalid and its time is \<open>NaN\<close>, which
  compares false; \<open>toISOString t\<close> is the ISO text of the date of time \<open>t\<close>.
\<close>

definition prepareState ::
  "(jsval \<Rightarrow> int option) \<Rightarrow> (int \<Rightarrow> string) \<Rightarrow> int option \<Rightarrow> int \<Rightarrow> StoredBotState \<Rightarrow>
   StoredBotState \<times> StoredBotState" where
  "prepareState dateTime toISOString expireAfter now state =
     (let newState = \<lparr>userState = cloneObject (userState state),
                      conversationState = cloneObject (conversationState state)\<rparr>;
          state1 =
            (if expireAfter \<noteq> None
                  \<and> truthy (getProp (conversationState newState) ''_lastAccess'')
             then (case dateTime (getProp (conversationState newState) ''_lastAccess'') of
                     None \<Rightarrow> state
                   | Some lastAccess \<Rightarrow>
                       if now - lastAccess \<ge> the expireAfter
                       then state\<lparr>conversationState :=
                              [(''eTag'', getProp (conversationState newState) ''eTag'')]\<rparr>
                       else state)
             else state);
          newState1 = newState\<lparr>conversationState :=
                        setProp (conversationState newState) ''_lastAccess'' (JStr (toISOString now))\<rparr>;
          newState2 =
            (if \<not> truthy (getProp (conversationState newState1) ''_dialogs'')
             then newState1\<lparr>conversationState :=
                    setProp (conversationState newState1) ''_dialogs''
                      (JObj [(''dialogStack'', JArr [])])\<rparr>
             else newState1)
      in (state1, newState2))"

text \<open>
  The two calls on the dialog context of the turn, \<open>dc.continueDialog()\<close> and
  \<open>dc.beginDialog(this.id)\<close>. Each runs dialogs over \<open>newState\<close> and returns a turn
  result or throws.
\<close>

record DialogRunner =
  dcContinueDialog :: "StoredBotState \<Rightarrow> (TurnError + DialogTurnResult) \<times> StoredBotState"
  dcBeginDialog :: "StoredBotState \<Rightarrow> (TurnError + DialogTurnResult) \<times> StoredBotState"

record BotTurnResult =
  turnResult :: DialogTurnResult
  newState :: "StoredBotState option"

text \<open>The configuration of the planning dialog that \<open>onTurn\<close> reads.\<close>

record 's TurnConfig =
  storage :: "'s Storage option"
  expireAfter :: "int option"
  dateTime :: "jsval \<Rightarrow> int option"
  toISOString :: "int \<Rightarrow> string"
  runner :: DialogRunner

definition executeComponent ::
  "DialogRunner \<Rightarrow> StoredBotState \<Rightarrow> 's TurnWorld \<Rightarrow>
   (TurnError + DialogTurnResult) \<times> StoredBotState \<times> 's TurnWorld" where
  "executeComponent run state0 w =
     (case dcContinueDialog run state0 of
        (r, newState1) \<Rightarrow>
          (let w1 = w\<lparr>turnCalls := turnCalls w @ [ContinueDialog]\<rparr>
           in case r of
                Inl e \<Rightarrow> (Inl e, newState1, w1)
              | Inr res \<Rightarrow>
                  if status res = Empty
                  then (case dcBeginDialog run newState1 of
                          (r2, newState2) \<Rightarrow>
                            (r2, newState2, w1\<lparr>turnCalls := turnCalls w1 @ [BeginDialog]\<rparr>))
                  else (Inr res, newState1, w1)))"

text \<open>
  \<open>onTurn\<close> from the clone of the state on. \<open>saveState\<close> tells whether the state was
  loaded from storage.
\<close>

definition turnBody ::
  "'s TurnConfig \<Rightarrow> BotStateStorageKeys \<Rightarrow> bool \<Rightarrow> StoredBotState \<Rightarrow> int \<Rightarrow> 's TurnWorld \<Rightarrow>
   (TurnError + BotTurnResult) \<times> 's TurnWorld" where
  "turnBody config keys saveState state now w =
     (case prepareState (dateTime config) (toISOString config) (expireAfter config) now state of
        (state1, newState0) \<Rightarrow>
          (case executeComponent (runner config) newState0 w of
             (Inl e, newState1, w1) \<Rightarrow> (Inl e, w1)
           | (Inr res, newState1, w1) \<Rightarrow>
               if saveState
               then (case saveBotState (the (storage config)) keys newState1 (Some state1)
                             (Some ''*'') w1 of
                       (Inl e, newState2, w2) \<Rightarrow> (Inl e, w2)
                     | (Inr u, newState2, w2) \<Rightarrow>
                         (Inr \<lparr>turnResult = res, newState = None\<rparr>, w2))
               else (Inr \<lparr>turnResult = res, newState = Some newState1\<rparr>, w1)))"

definition onTurn ::
  "'s TurnConfig \<Rightarrow> Activity \<Rightarrow> StoredBotState option \<Rightarrow> int \<Rightarrow> 's TurnWorld \<Rightarrow>
   (TurnError + BotTurnResult) \<times> 's TurnWorld" where
  "onTurn config a state now w =
     (case getStorageKeys a of
        Inl e \<Rightarrow> (Inl e, w)
      | Inr keys \<Rightarrow>
          (case state of
             None \<Rightarrow>
               (case storage config of
                  None \<Rightarrow> (Inl StorageNotAssigned, w)
                | Some st \<Rightarrow>
                    (case loadBotState st keys w of
                       (Inl e, w1) \<Rightarrow> (Inl e, w1)
                     | (Inr loaded, w1) \<Rightarrow> turnBody config keys True loaded now w1))
           | Some supplied \<Rightarrow> turnBody config keys False supplied now w))"

section \<open>Plan execution\<close>

text \<open>
  A consultation: the desire and the processor. The processor of a step works on the
  planning context, the one the planning dialog returns works on the world. A
  processor of the planning dialog may return \<open>undefined\<close> (\<open>None\<close>).
\<close>

record 'p DialogConsultation =
  desire :: DialogConsultationDesire
  processor :: 'p

text \<open>
  The planning dialog: its rules and recognizer, and the collaborators it calls
  through the planning context and the context of the current step.
\<close>

record PlanningDialog =
  rules :: "PlanningRule list"
  recognizer :: "(Activity \<Rightarrow> JSError + RecognizerResult) option"
  applyChanges :: "unit ext"
  stepConsultDialog :: "(DialogTurnResult ext) DialogConsultation option ext"
  stepBeginDialog :: "string \<Rightarrow> jsval \<Rightarrow> DialogTurnResult ext"
  endStep :: "unit ext"
  stepRepromptDialog :: "unit ext"
  cancelAllDialogs :: "string \<Rightarrow> jsval \<Rightarrow> DialogTurnResult ext"
  endDialog :: "jsval \<Rightarrow> DialogTurnResult ext"

text \<open>
  The error of reading a property of \<open>undefined\<close>. The text of its stack is the
  runtime's and is not modelled.
\<close>

definition typeError :: JSError where
  "typeError = \<lparr>message = ''Cannot read property of undefined'', errorStack = []\<rparr>"

text \<open>
  Modelled from the spec: \<open>PlanningContext.createForStep\<close> computes the current step
  of the plan, the first of its steps; there is none when the plan has no step.
\<close>

definition createForStep :: "PlanningContext \<Rightarrow> PlanStepState option" where
  "createForStep p =
     (case plan p of
        None \<Rightarrow> None
      | Some pl \<Rightarrow> if length (planSteps pl) > 0 then Some (planSteps pl ! 0) else None)"

text \<open>\<open>dc.activeDialog\<close> is the last entry of the stack.\<close>

definition getUniqueInstanceId :: "PlanningContext \<Rightarrow> string" where
  "getUniqueInstanceId dc =
     (if length (stack dc) > 0
      then showNat (length (stack dc)) @ '':'' @ instance_id (last (stack dc))
      else [])"

text \<open>\<open>step.plan.steps[0]\<close>, read while the processor runs.\<close>

definition currentStep :: "PlanStepState exec" where
  "currentStep w = (case createForStep (ctx w) of None \<Rightarrow> throw typeError w | Some s \<Rightarrow> ret s w)"

definition repromptDialog :: "PlanningDialog \<Rightarrow> unit exec" where
  "repromptDialog d w =
     (if stack (ctx w) = [] then throw typeError w
      else if createForStep (ctx w) \<noteq> None then call Reprompt (stepRepromptDialog d) w
      else ret () w)"

definition onEndOfPlan :: "PlanningDialog \<Rightarrow> DialogTurnResult exec" where
  "onEndOfPlan d w = call (EndDialog (stateResult (ctx w))) (endDialog d (stateResult (ctx w))) w"

text \<open>
  The first half of the processor that \<open>consultPlan\<close> returns: the turn is delegated
  to the current step, through the processor of its consultation, and the step's
  dialog is begun when that leaves an empty result.
\<close>

definition runStep ::
  "PlanningDialog \<Rightarrow> (DialogTurnResult ext) DialogConsultation option \<Rightarrow> DialogTurnResult exec" where
  "runStep d consultation =
     bind currentStep (\<lambda>logged.
     bind (case consultation of
             Some c \<Rightarrow> call StepProcess (processor c)
           | None \<Rightarrow> ret \<lparr>status = Empty, result = JUndefined, parentEnded = False\<rparr>) (\<lambda>res.
       if status res = Empty \<and> \<not> parentEnded res
       then bind currentStep (\<lambda>nextStep.
              call (StepBegin (dialogId nextStep))
                (stepBeginDialog d (dialogId nextStep) (stepOptions nextStep)))
       else ret res))"

text \<open>
  The second half: what is done with the result of the step. \<open>instanceId\<close> is the
  unique instance id that \<open>consultPlan\<close> captured, and \<open>continuePlan'\<close> stands for
  \<open>this.continuePlan\<close>.
\<close>

definition processStepResult ::
  "PlanningDialog \<Rightarrow> DialogTurnResult option exec \<Rightarrow> string \<Rightarrow> DialogTurnResult \<Rightarrow>
   DialogTurnResult option exec" where
  "processStepResult d continuePlan' instanceId res w =
     (if \<not> parentEnded res \<and> getUniqueInstanceId (ctx w) = instanceId
      then if status res = Waiting then ret (Some res) w
           else bind (call EndStep (endStep d)) (\<lambda>_ w'.
                  if (case plan (ctx w') of
                        None \<Rightarrow> False
                      | Some pl \<Rightarrow>
                          length (planSteps pl) > 0
                          \<and> (case dialogStack (planSteps pl ! 0) of
                                None \<Rightarrow> False
                              | Some ds \<Rightarrow> length ds > 0))
                  then bind (repromptDialog d)
                         (\<lambda>_. ret (Some \<lparr>status = Waiting, result = JUndefined,
                                         parentEnded = False\<rparr>)) w'
                  else continuePlan' w') w
      else ret (Some (res\<lparr>parentEnded := False\<rparr>)) w)"

definition consultPlan_processor ::
  "PlanningDialog \<Rightarrow> DialogTurnResult option exec \<Rightarrow> string \<Rightarrow> PlanStepState option \<Rightarrow>
   (DialogTurnResult ext) DialogConsultation option \<Rightarrow> DialogTurnResult option exec" where
  "consultPlan_processor d continuePlan' instanceId step consultation w =
     (if step \<noteq> None
      then bind (runStep d consultation) (processStepResult d continuePlan' instanceId) w
      else if stack (ctx w) \<noteq> []
      then bind (onEndOfPlan d) (\<lambda>res. ret (Some res)) w
      else ret None w)"

definition consultPlan ::
  "PlanningDialog \<Rightarrow> DialogTurnResult option exec \<Rightarrow>
   (DialogTurnResult option exec) DialogConsultation exec" where
  "consultPlan d continuePlan' =
     bind (call ApplyChanges (applyChanges d)) (\<lambda>_ w.
       let instanceId = getUniqueInstanceId (ctx w);
           step = createForStep (ctx w)
       in bind (if step \<noteq> None then call StepConsult (stepConsultDialog d) else ret None)
            (\<lambda>consultation.
               ret \<lparr>desire = (case consultation of Some c \<Rightarrow> desire c | None \<Rightarrow> canProcess),
                    processor = consultPlan_processor d continuePlan' instanceId step consultation\<rparr>)
            w)"

text \<open>\<open>cancelAllDialogs('error', { message: err.message, stack: err.stack })\<close>.\<close>

definition errorDetails :: "JSError \<Rightarrow> jsval" where
  "errorDetails err = JObj [(''message'', JStr (message err)), (''stack'', JStr (errorStack err))]"

definition cancelOnError :: "PlanningDialog \<Rightarrow> JSError \<Rightarrow> DialogTurnResult option exec" where
  "cancelOnError d err =
     bind (call (CancelAllDialogs ''error'' (errorDetails err))
             (cancelAllDialogs d ''error'' (errorDetails err)))
       (\<lambda>res. ret (Some res))"

text \<open>
  \<open>continuePlan\<close>. It is called again from the processor it runs, once for each step
  that completes within the turn; the first argument bounds the depth of these calls.
\<close>

fun continuePlan :: "nat \<Rightarrow> PlanningDialog \<Rightarrow> DialogTurnResult option exec" where
  "continuePlan 0 d = (\<lambda>w. None)"
| "continuePlan (Suc n) d =
     tryCatch (bind (consultPlan d (continuePlan n d)) (\<lambda>consultation. processor consultation))
       (cancelOnError d)"

text \<open>The statements of \<open>beginDialog\<close> that store the options and the initial result.\<close>

definition persistOptions :: "jsval \<Rightarrow> unit exec" where
  "persistOptions opts w =
     (let stored = (if truthy opts then opts else JObj []);
          p = (ctx w)\<lparr>options := stored\<rparr>;
          p' = (case stored of
                  JObj kvs \<Rightarrow>
                    if ''value'' \<in> set (map fst kvs)
                    then p\<lparr>stateResult :=
                           (case getProp kvs ''value'' of
                              JArr xs \<Rightarrow> jsonClone (JArr xs)
                            | JObj obj \<Rightarrow> jsonClone (JObj obj)
                            | JNull \<Rightarrow> jsonClone JNull
                            | v \<Rightarrow> v)\<rparr>
                    else p
                | _ \<Rightarrow> p)
      in ret () (w\<lparr>ctx := p'\<rparr>))"

definition installDependencies :: "PlanningDialog \<Rightarrow> unit exec" where
  "installDependencies d w =
     (if \<not> installedDependencies w
      then ret () (w\<lparr>installedDependencies := True,
                     dialogs := dialogs w @ concat (map ruleSteps (rules d))\<rparr>)
      else ret () w)"

text \<open>The \<open>try\<close> block of \<open>beginDialog\<close>.\<close>

definition beginDialog_try :: "nat \<Rightarrow> PlanningDialog \<Rightarrow> jsval \<Rightarrow> DialogTurnResult option exec" where
  "beginDialog_try n d opts =
     bind (installDependencies d) (\<lambda>_.
     bind (persistOptions opts) (\<lambda>_.
     bind (evaluateRules n (rules d) (recognizer d)
             \<lparr>eventName = Some PlanningEventNames_beginDialog, eventValue = JSValue opts,
              bubble = False\<rparr>) (\<lambda>_.
     continuePlan n d)))"

text \<open>
  \<open>beginDialog\<close>. The state of the active dialog is read before the \<open>try\<close> block.
\<close>

definition beginDialog :: "nat \<Rightarrow> PlanningDialog \<Rightarrow> jsval \<Rightarrow> DialogTurnResult option exec" where
  "beginDialog n d opts w =
     (if stack (ctx w) = [] then throw typeError w
      else tryCatch (beginDialog_try n d opts) (cancelOnError d) w)"

text \<open>The \<open>try\<close> block of \<open>consultDialog\<close>.\<close>

definition consultDialog_try ::
  "nat \<Rightarrow> PlanningDialog \<Rightarrow> (DialogTurnResult option exec) DialogConsultation exec" where
  "consultDialog_try n d w =
     (if stack (ctx w) = [] then throw typeError w
      else bind (consultPlan d (continuePlan n d)) (\<lambda>consultation.
             if desire consultation \<noteq> shouldProcess
             then bind (evaluateRules n (rules d) (recognizer d)
                          \<lparr>eventName = Some PlanningEventNames_consultDialog,
                           eventValue = NoValue, bubble = False\<rparr>) (\<lambda>changesQueued.
                    if changesQueued
                    then ret \<lparr>desire = shouldProcess, processor = continuePlan n d\<rparr>
                    else ret consultation)
             else ret consultation) w)"

definition consultDialog ::
  "nat \<Rightarrow> PlanningDialog \<Rightarrow> (DialogTurnResult option exec) DialogConsultation exec" where
  "consultDialog n d =
     tryCatch (consultDialog_try n d)
       (\<lambda>err. ret \<lparr>desire = shouldProcess, processor = cancelOnError d err\<rparr>)"

section \<open>Notions used in the statements\<close>

text \<open>
  The two numbers \<open>findBestChange\<close> compares, the set of the matched intents of a
  change-list, and the disjointness of two such sets.
\<close>

definition rank :: "PlanChangeList \<Rightarrow> nat \<times> nat" where
  "rank c = (length (orEmpty (intentsMatched c)), length (orEmpty (entitiesMatched c)))"

definition intentsOf :: "PlanChangeList \<Rightarrow> string set" where
  "intentsOf c = set (orEmpty (intentsMatched c))"

definition disjointIntents :: "PlanChangeList \<Rightarrow> PlanChangeList \<Rightarrow> bool" where
  "disjointIntents a b \<longleftrightarrow> intentsOf a \<inter> intentsOf b = {}"

text \<open>
  Deep equality of two values, in the words of the specification equality by value:
  equal primitive values, arrays of the same length with deep-equal elements, and
  objects with the same property names and deep-equal values of each property,
  whatever the order of the properties.
\<close>

primrec deepEqual :: "jsval \<Rightarrow> jsval \<Rightarrow> bool" where
  "deepEqual JUndefined y = (y = JUndefined)"
| "deepEqual JNull y = (y = JNull)"
| "deepEqual (JBool b) y = (y = JBool b)"
| "deepEqual (JNum n) y = (y = JNum n)"
| "deepEqual (JStr s) y = (y = JStr s)"
| "deepEqual (JArr xs) y =
     (case y of
        JArr ys \<Rightarrow> length xs = length ys
                   \<and> list_all (\<lambda>fv. fst fv (snd fv)) (zip (map deepEqual xs) ys)
      | _ \<Rightarrow> False)"
| "deepEqual (JObj kvs) y =
     (case y of
        JObj kvs' \<Rightarrow> set (map fst kvs) = set (map fst kvs')
                   \<and> list_all (\<lambda>kf. snd kf (getProp kvs' (fst kf)))
                        (map (map_prod id deepEqual) kvs)
      | _ \<Rightarrow> False)"

section \<open>Example inputs\<close>

text \<open>
  Change-lists with given matched intents and entities, and three candidates whose
  intents overlap in a chain.
\<close>

definition exampleChange :: "PlanChangeType \<Rightarrow> string list \<Rightarrow> string list \<Rightarrow> PlanChangeList" where
  "exampleChange t is es =
     \<lparr>changeType = t, steps = [], intentsMatched = Some is, entitiesMatched = Some es\<rparr>"

definition candidateA :: PlanChangeList where
  "candidateA = exampleChange doSteps [''a'', ''b''] []"

definition candidateB :: PlanChangeList where
  "candidateB = exampleChange doSteps [''b'', ''c'', ''d''] []"

definition candidateC :: PlanChangeList where
  "candidateC = exampleChange doSteps [''a''] []"

text \<open>
  Three proposed change-lists in the order of their rules: one that the second
  overlaps and beats, a \<open>newPlan\<close> with two matched intents, and a \<open>replacePlan\<close> that
  overlaps neither; and a recognized-utterance event.
\<close>

definition overlappedCandidate :: PlanChangeList where
  "overlappedCandidate = exampleChange doSteps [''a''] []"

definition laterNew :: PlanChangeList where
  "laterNew = exampleChange newPlan [''a'', ''b''] []"

definition laterReplace :: PlanChangeList where
  "laterReplace = exampleChange replacePlan [''c''] []"

definition utteranceEvent :: DialogEvent where
  "utteranceEvent =
     \<lparr>eventName = Some PlanningEventNames_utteranceRecognized,
      eventValue = Recognized \<lparr>resultText = ''hi'', intents = [(''a'', 1), (''b'', 1), (''c'', 1)],
                                entities = []\<rparr>,
      bubble = False\<rparr>"

text \<open>
  A rule that returns the same change-lists for every event, and a world with no
  activity data, no dialog on the stack and no plan; then a world whose activity is
  the message \<open>hi\<close>.
\<close>

definition constantRule :: "PlanChangeList list \<Rightarrow> PlanningRule" where
  "constantRule cs = \<lparr>ruleSteps = [], evaluate = (\<lambda>p event. Inr (Some cs))\<rparr>"

definition emptyActivity :: Activity where
  "emptyActivity =
     \<lparr>activityType = None, channelId = None, fromAccount = None, conversation = None,
      recipient = None, membersAdded = None, membersRemoved = None, activityText = None,
      activityName = None, activityValue = JUndefined\<rparr>"

definition emptyWorld :: World where
  "emptyWorld =
     \<lparr>ctx = \<lparr>activity = emptyActivity, stack = [], options = JUndefined,
             stateResult = JUndefined, plan = None, savedPlans = [], changes = []\<rparr>,
      installedDependencies = False, dialogs = [], calls = []\<rparr>"

definition someEvent :: DialogEvent where
  "someEvent = \<lparr>eventName = Some ''greeting'', eventValue = NoValue, bubble = False\<rparr>"

definition messageWorld :: World where
  "messageWorld =
     emptyWorld\<lparr>ctx := (ctx emptyWorld)\<lparr>activity :=
       emptyActivity\<lparr>activityType := Some ''message'', activityText := Some ''hi''\<rparr>\<rparr>\<rparr>"

definition activityReceivedEvent :: DialogEvent where
  "activityReceivedEvent =
     \<lparr>eventName = Some PlanningEventNames_activityReceived, eventValue = NoValue, bubble = False\<rparr>"

text \<open>
  A turn configuration with no storage assigned and an expiry of ten minutes. Its
  dialogs wait, and \<open>continueDialog\<close> reports the dialog state it was run on as its
  result. Its \<open>Date\<close> knows the two instants the examples use: the time of the one
  date string, and the ISO text of the time of the turn.
\<close>

definition noRunner :: DialogRunner where
  "noRunner =
     \<lparr>dcContinueDialog = (\<lambda>s. (Inr \<lparr>status = Waiting,
                                     result = getProp (conversationState s) ''_dialogs'',
                                     parentEnded = False\<rparr>, s)),
      dcBeginDialog = (\<lambda>s. (Inr \<lparr>status = Waiting, result = JUndefined, parentEnded = False\<rparr>, s))\<rparr>"

definition exampleDateTime :: "jsval \<Rightarrow> int option" where
  "exampleDateTime v =
     (if v = JStr ''2019-01-01T00:00:00.000Z'' then Some 1546300800000 else None)"

definition exampleToISOString :: "int \<Rightarrow> string" where
  "exampleToISOString t =
     (if t = 1546301401000 then ''2019-01-01T00:10:01.000Z'' else ''2019-01-01T00:00:00.000Z'')"

definition configWithoutStorage :: "unit TurnConfig" where
  "configWithoutStorage =
     \<lparr>storage = None, expireAfter = Some 600000, dateTime = exampleDateTime,
      toISOString = exampleToISOString, runner = noRunner\<rparr>"

definition messageActivity :: Activity where
  "messageActivity =
     emptyActivity\<lparr>activityType := Some ''message'', channelId := Some ''emulator'',
       fromAccount := Some \<lparr>accountId = Some ''user1''\<rparr>,
       conversation := Some \<lparr>accountId = Some ''conv1''\<rparr>,
       activityText := Some ''hi''\<rparr>"

definition freshWorld :: "unit TurnWorld" where
  "freshWorld = \<lparr>store = (), turnCalls = []\<rparr>"

text \<open>
  A storage provider that accepts every write, and states whose user state has the
  same properties in two orders.
\<close>

definition memoryStorage :: "unit Storage" where
  "memoryStorage =
     \<lparr>storageRead = (\<lambda>keys s. (Inr [], s)), storageWrite = (\<lambda>changes s. (Inr (), s))\<rparr>"

definition exampleKeys :: BotStateStorageKeys where
  "exampleKeys = \<lparr>userStateKey = ''emulator/users/user1'',
                  conversationStateKey = ''emulator/conversations/conv1''\<rparr>"

definition stateAB :: StoredBotState where
  "stateAB = \<lparr>userState = [(''a'', JStr ''x''), (''b'', JStr ''y'')], conversationState = []\<rparr>"

definition stateBA :: StoredBotState where
  "stateBA = \<lparr>userState = [(''b'', JStr ''y''), (''a'', JStr ''x'')], conversationState = []\<rparr>"

text \<open>A state whose conversation was last accessed at the first of the two instants.\<close>

definition expiredState :: StoredBotState where
  "expiredState =
     \<lparr>userState = [],
      conversationState =
        [(''eTag'', JStr ''1''),
         (''_dialogs'', JObj [(''dialogStack'', JArr [JObj [(''id'', JStr ''askName'')]])]),
         (''_lastAccess'', JStr ''2019-01-01T00:00:00.000Z''),
         (''name'', JStr ''Alice'')]\<rparr>"

definition cancelledResult :: DialogTurnResult where
  "cancelledResult = \<lparr>status = Cancelled, result = JUndefined, parentEnded = False\<rparr>"

text \<open>A planning dialog whose current step cancels all dialogs when it processes the turn.\<close>

definition cancellingDialog :: PlanningDialog where
  "cancellingDialog =
     \<lparr>rules = [], recognizer = None,
      applyChanges = (\<lambda>p. (Inr (), p)),
      stepConsultDialog = (\<lambda>p.
        (Inr (Some \<lparr>desire = shouldProcess,
                    processor = (\<lambda>p. (Inr cancelledResult, p\<lparr>stack := []\<rparr>))\<rparr>), p)),
      stepBeginDialog = (\<lambda>i opts p. (Inr cancelledResult, p)),
      endStep = (\<lambda>p. (Inr (), p\<lparr>plan := None\<rparr>)),
      stepRepromptDialog = (\<lambda>p. (Inr (), p)),
      cancelAllDialogs = (\<lambda>reason details p. (Inr cancelledResult, p\<lparr>stack := []\<rparr>)),
      endDialog = (\<lambda>v p. (Inr cancelledResult, p))\<rparr>"

definition planningWorld :: World where
  "planningWorld =
     emptyWorld\<lparr>ctx := (ctx emptyWorld)\<lparr>
       stack := [\<lparr>instance_id = ''planning''\<rparr>],
       plan := Some \<lparr>planSteps =
         [\<lparr>dialogId = ''askName'', stepOptions = JUndefined, dialogStack = None\<rparr>]\<rparr>\<rparr>\<rparr>"

text \<open>
  A planning dialog like \<open>cancellingDialog\<close> whose \<open>applyChanges\<close> throws, and one
  whose only rule throws.
\<close>

definition failingDialog :: PlanningDialog where
  "failingDialog =
     cancellingDialog\<lparr>applyChanges :=
       (\<lambda>p. (Inl \<lparr>message = ''boom'', errorStack = ''at applyChanges''\<rparr>, p))\<rparr>"

definition failingRuleDialog :: PlanningDialog where
  "failingRuleDialog =
     cancellingDialog\<lparr>rules :=
       [\<lparr>ruleSteps = [],
         evaluate = (\<lambda>p event. Inl \<lparr>message = ''boom'', errorStack = ''at evaluate''\<rparr>)\<rparr>]\<rparr>"

text \<open>
  A planning dialog like \<open>cancellingDialog\<close> whose current step should process the
  turn and throws when it does.
\<close>

definition throwingStepDialog :: PlanningDialog where
  "throwingStepDialog =
     cancellingDialog\<lparr>stepConsultDialog := (\<lambda>p.
       (Inr (Some \<lparr>desire = shouldProcess,
                   processor = (\<lambda>p. (Inl \<lparr>message = ''boom'', errorStack = ''at step''\<rparr>, p))\<rparr>),
        p))\<rparr>"

section \<open>Properties of best-match selection\<close>

subsection \<open>The best change\<close>

lemma better_Some:
  "better (Some t) c \<longleftrightarrow>
     fst (rank t) < fst (rank c) \<or> (fst (rank t) = fst (rank c) \<and> snd (rank t) < snd (rank c))"
  by (auto simp: better_def rank_def)

lemma better_trans:
  "\<not> better (Some t) c \<Longrightarrow> better (Some t) c' \<Longrightarrow> \<not> better (Some c') c"
  by (auto simp: better_Some)

lemma better_irrefl: "\<not> better (Some c) c"
  by (simp add: better_Some)

lemma findBestChange_loop_inv:
  "i = length pre \<Longrightarrow> ti < length pre \<Longrightarrow> pre ! ti = t \<Longrightarrow>
   \<forall>c \<in> set pre. \<not> better (Some t) c \<Longrightarrow>
   \<exists>k < length (pre @ rest).
      findBestChange_loop rest i (Some t) (int ti) = int k \<and>
      (\<forall>c \<in> set (pre @ rest). \<not> better (Some ((pre @ rest) ! k)) c)"
proof (induction rest arbitrary: i pre ti t)
  case Nil
  then show ?case by auto
next
  case (Cons c rest)
  show ?case
  proof (cases "better (Some t) c")
    case True
    have inv: "\<forall>d \<in> set (pre @ [c]). \<not> better (Some c) d"
      using Cons.prems(4) True better_trans better_irrefl by auto
    have "\<exists>k < length ((pre @ [c]) @ rest).
        findBestChange_loop rest (Suc i) (Some c) (int (length pre)) = int k \<and>
        (\<forall>d \<in> set ((pre @ [c]) @ rest). \<not> better (Some (((pre @ [c]) @ rest) ! k)) d)"
      by (rule Cons.IH [of "Suc i" "pre @ [c]" "length pre" c])
         (use Cons.prems inv in simp_all)
    then show ?thesis using True Cons.prems(1) by simp
  next
    case False
    have inv: "\<forall>d \<in> set (pre @ [c]). \<not> better (Some t) d"
      using Cons.prems(4) False by auto
    have "\<exists>k < length ((pre @ [c]) @ rest).
        findBestChange_loop rest (Suc i) (Some t) (int ti) = int k \<and>
        (\<forall>d \<in> set ((pre @ [c]) @ rest). \<not> better (Some (((pre @ [c]) @ rest) ! k)) d)"
      by (rule Cons.IH [of "Suc i" "pre @ [c]" ti t])
         (use Cons.prems inv in \<open>simp_all add: nth_append\<close>)
    then show ?thesis using False by simp
  qed
qed

lemma findBestChange_Nil: "findBestChange [] = - 1"
  by (simp add: findBestChange_def)

lemma findBestChange_Cons:
  "\<exists>k < length (c # cs). findBestChange (c # cs) = int k \<and>
      (\<forall>d \<in> set (c # cs). \<not> better (Some ((c # cs) ! k)) d)"
  using findBestChange_loop_inv [of "Suc 0" "[c]" 0 c cs]
  by (simp add: findBestChange_def better_def better_irrefl)

lemma findBestChange_nonneg: "cs \<noteq> [] \<Longrightarrow> 0 \<le> findBestChange cs"
proof (cases cs)
  case Nil
  assume "cs \<noteq> []"
  with Nil show ?thesis by simp
next
  case (Cons c rest)
  obtain k where "findBestChange (c # rest) = int k"
    using findBestChange_Cons by blast
  with Cons show ?thesis by simp
qed

lemma findBestChange_best:
  assumes "0 \<le> findBestChange cs" and "d \<in> set cs"
  shows "\<not> better (Some (cs ! nat (findBestChange cs))) d"
proof (cases cs)
  case Nil
  with assms show ?thesis by simp
next
  case (Cons c rest)
  obtain k where k: "findBestChange (c # rest) = int k"
      "\<forall>d \<in> set (c # rest). \<not> better (Some ((c # rest) ! k)) d"
    using findBestChange_Cons by blast
  from k(2) assms(2) Cons have "\<not> better (Some ((c # rest) ! k)) d" by blast
  with Cons k(1) show ?thesis by simp
qed

subsection \<open>The selection loop terminates\<close>

lemma bestLoop_unfold:
  "bestLoop cs acc =
     (if 0 \<le> findBestChange cs
      then bestLoop (removeOverlapping (cs ! nat (findBestChange cs))
                       (splice1 (nat (findBestChange cs)) cs))
             (acc @ [(nat (findBestChange cs), cs ! nat (findBestChange cs))])
      else acc)"
  by (subst bestLoop.simps) (simp add: Let_def)

lemma bestLoop_length: "length (bestLoop cs acc) \<le> length acc + length cs"
proof (induction cs acc rule: bestLoop.induct)
  case (1 cs acc)
  show ?case
  proof (cases "0 \<le> findBestChange cs")
    case True
    let ?k = "nat (findBestChange cs)"
    let ?cs' = "removeOverlapping (cs ! ?k) (splice1 ?k cs)"
    have "length (bestLoop ?cs' (acc @ [(?k, cs ! ?k)])) \<le> length (acc @ [(?k, cs ! ?k)]) + length ?cs'"
      using "1.IH" [OF refl True refl] .
    moreover have "length ?cs' < length cs"
      using True by (rule bestLoop_step_shrinks)
    ultimately have "length (bestLoop ?cs' (acc @ [(?k, cs ! ?k)])) \<le> length acc + length cs"
      by simp
    then show ?thesis using True by (subst bestLoop_unfold) simp
  next
    case False
    then show ?thesis by (subst bestLoop_unfold) simp
  qed
qed

lemma findBestChange_minus1_iff: "findBestChange cs = - 1 \<longleftrightarrow> cs = []"
proof
  assume "findBestChange cs = - 1"
  then show "cs = []" using findBestChange_nonneg [of cs] by auto
next
  assume "cs = []"
  then show "findBestChange cs = - 1" by (simp add: findBestChange_Nil)
qed

text \<open>
  C10. The selection loop of \<open>queueBestMatches\<close> terminates on every finite list of
  candidates (\<open>bestLoop\<close> is a total function, by the measure \<open>length allChanges\<close>):
  \<open>findBestChange\<close> returns \<open>-1\<close> exactly when the list is empty; an iteration that
  selects a change leaves strictly fewer candidates; and the number of iterations
  that select a change, which is the number of entries pushed onto
  \<open>appliedChanges\<close>, is at most the number of candidates.
\<close>

theorem bestLoop_terminates:
  "(findBestChange allChanges = - 1 \<longleftrightarrow> allChanges = []) \<and>
   (allChanges \<noteq> [] \<longrightarrow>
      0 \<le> findBestChange allChanges \<and>
      nat (findBestChange allChanges) < length allChanges \<and>
      length (removeOverlapping (allChanges ! nat (findBestChange allChanges))
                (splice1 (nat (findBestChange allChanges)) allChanges))
        < length allChanges) \<and>
   length (bestLoop allChanges appliedChanges) \<le> length appliedChanges + length allChanges \<and>
   length (findBestMatches allChanges) \<le> length allChanges"
proof -
  have "length (findBestMatches allChanges) \<le> length allChanges"
    using bestLoop_length [of allChanges "[]"] by (simp add: findBestMatches_def)
  then show ?thesis
    using findBestChange_minus1_iff [of allChanges] findBestChange_nonneg [of allChanges]
      findBestChange_less [of allChanges] bestLoop_step_shrinks [of allChanges]
      bestLoop_length [of allChanges appliedChanges]
    by blast
qed

theorem bestLoop_terminates_witness:
  "findBestChange [exampleChange doSteps [''a''] [], exampleChange newPlan [''a'', ''b''] []] = 1 \<and>
   length (findBestMatches
      [exampleChange doSteps [''a''] [], exampleChange newPlan [''a'', ''b''] []]) \<le> 2"
proof -
  have "findBestChange [exampleChange doSteps [''a''] [], exampleChange newPlan [''a'', ''b''] []] = 1"
    by (simp add: findBestChange_def better_def exampleChange_def orEmpty_def)
  then show ?thesis
    using bestLoop_terminates
      [of "[exampleChange doSteps [''a''] [], exampleChange newPlan [''a'', ''b''] []]" "[]"]
    by simp
qed

subsection \<open>Winners do not overlap\<close>

lemma intentsOverlap_loop_iff: "intentsOverlap_loop i1 i2 \<longleftrightarrow> set i1 \<inter> set i2 \<noteq> {}"
  by (induction i2) auto

lemma intentsOverlap_iff:
  "intentsOverlap c1 c2 \<longleftrightarrow>
     (if orEmpty (intentsMatched c1) \<noteq> [] \<and> orEmpty (intentsMatched c2) \<noteq> []
      then intentsOf c1 \<inter> intentsOf c2 \<noteq> {}
      else orEmpty (intentsMatched c1) = [] \<and> orEmpty (intentsMatched c2) = [])"
  by (auto simp: intentsOverlap_def Let_def intentsOverlap_loop_iff intentsOf_def)

lemma not_intentsOverlap_disjoint:
  "\<not> intentsOverlap c1 c2 \<Longrightarrow> intentsOf c1 \<inter> intentsOf c2 = {}"
  by (auto simp: intentsOverlap_iff intentsOf_def split: if_splits)

lemma set_splice1:
  assumes "k < length xs"
  shows "set xs = insert (xs ! k) (set (splice1 k xs))"
proof -
  have "xs = take k xs @ xs ! k # drop (Suc k) xs"
    using assms by (rule id_take_nth_drop)
  then have "set xs = set (take k xs @ xs ! k # drop (Suc k) xs)" by simp
  then show ?thesis by (simp add: splice1_def)
qed

lemma bestLoop_prefix: "set acc \<subseteq> set (bestLoop cs acc)"
proof (induction cs acc rule: bestLoop.induct)
  case (1 cs acc)
  show ?case
  proof (cases "0 \<le> findBestChange cs")
    case True
    then show ?thesis
      using "1.IH" [OF refl True refl] by (subst bestLoop_unfold) auto
  next
    case False
    then show ?thesis by (subst bestLoop_unfold) simp
  qed
qed

lemma bestLoop_no_overlap:
  "sorted_wrt (\<lambda>a b. \<not> intentsOverlap a b) (map snd acc) \<Longrightarrow>
   (\<forall>a \<in> snd ` set acc. \<forall>c \<in> set cs. \<not> intentsOverlap a c) \<Longrightarrow>
   sorted_wrt (\<lambda>a b. \<not> intentsOverlap a b) (map snd (bestLoop cs acc))"
proof (induction cs acc rule: bestLoop.induct)
  case (1 cs acc)
  show ?case
  proof (cases "0 \<le> findBestChange cs")
    case True
    let ?k = "nat (findBestChange cs)"
    let ?w = "cs ! ?k"
    let ?cs' = "removeOverlapping ?w (splice1 ?k cs)"
    have k: "?k < length cs" using True by (rule findBestChange_less)
    have w: "?w \<in> set cs" using k by simp
    have sub: "set ?cs' \<subseteq> set cs"
      using set_splice1 [OF k] by (auto simp: removeOverlapping_filter)
    have a1: "sorted_wrt (\<lambda>a b. \<not> intentsOverlap a b) (map snd (acc @ [(?k, ?w)]))"
      using "1.prems" w by (auto simp: sorted_wrt_append)
    have a2: "\<forall>a \<in> snd ` set (acc @ [(?k, ?w)]). \<forall>c \<in> set ?cs'. \<not> intentsOverlap a c"
      using "1.prems"(2) sub by (auto simp: removeOverlapping_filter)
    show ?thesis
      using "1.IH" [OF refl True refl a1 a2] True by (subst bestLoop_unfold) simp
  next
    case False
    then show ?thesis using "1.prems"(1) by (subst bestLoop_unfold) simp
  qed
qed

lemma bestLoop_covers:
  "c \<in> set cs \<Longrightarrow>
   \<exists>w \<in> snd ` set (bestLoop cs acc). (w = c \<or> intentsOverlap w c) \<and> \<not> better (Some w) c"
proof (induction cs acc rule: bestLoop.induct)
  case (1 cs acc)
  have "cs \<noteq> []" using "1.prems" by auto
  then have nonneg: "0 \<le> findBestChange cs" by (rule findBestChange_nonneg)
  let ?k = "nat (findBestChange cs)"
  let ?w = "cs ! ?k"
  let ?cs' = "removeOverlapping ?w (splice1 ?k cs)"
  let ?acc' = "acc @ [(?k, ?w)]"
  have k: "?k < length cs" using nonneg by (rule findBestChange_less)
  have unf: "bestLoop cs acc = bestLoop ?cs' ?acc'"
    using nonneg by (subst bestLoop_unfold) simp
  have best: "\<not> better (Some ?w) c"
    using nonneg "1.prems" by (rule findBestChange_best)
  have win: "?w \<in> snd ` set (bestLoop ?cs' ?acc')"
  proof -
    have "(?k, ?w) \<in> set ?acc'" by simp
    then have "(?k, ?w) \<in> set (bestLoop ?cs' ?acc')"
      using bestLoop_prefix [of ?acc' ?cs'] by blast
    then show ?thesis by force
  qed
  show ?case
  proof (cases "c \<in> set ?cs'")
    case True
    then show ?thesis using "1.IH" [OF refl nonneg refl] unf by simp
  next
    case False
    have "c = ?w \<or> c \<in> set (splice1 ?k cs)"
      using "1.prems" set_splice1 [OF k] by auto
    then have "?w = c \<or> intentsOverlap ?w c"
      using False by (auto simp: removeOverlapping_filter)
    with best have "(?w = c \<or> intentsOverlap ?w c) \<and> \<not> better (Some ?w) c" by simp
    with win have "\<exists>w \<in> snd ` set (bestLoop ?cs' ?acc').
        (w = c \<or> intentsOverlap w c) \<and> \<not> better (Some w) c" by (rule rev_bexI)
    then show ?thesis by (simp only: unf)
  qed
qed

subsection \<open>Queued winners have disjoint intents\<close>

lemma disjointIntents_sym: "disjointIntents a b \<Longrightarrow> disjointIntents b a"
  by (auto simp: disjointIntents_def)

lemma disjointIntents_demote [simp]:
  "disjointIntents a (b\<lparr>changeType := t\<rparr>) = disjointIntents a b"
  "disjointIntents (a\<lparr>changeType := t\<rparr>) b = disjointIntents a b"
  by (simp_all add: disjointIntents_def intentsOf_def)

lemma sorted_wrt_insort_key_sym:
  assumes sym: "\<And>a b. P a b \<Longrightarrow> P b a"
  shows "sorted_wrt P (insort_key f x xs) \<longleftrightarrow> (\<forall>y \<in> set xs. P x y) \<and> sorted_wrt P xs"
proof (induction xs)
  case Nil
  show ?case by simp
next
  case (Cons y ys)
  show ?case
  proof (cases "f x \<le> f y")
    case True
    then show ?thesis by auto
  next
    case False
    then show ?thesis using Cons.IH sym by (auto simp: set_insort_key)
  qed
qed

lemma sorted_wrt_sort_key_sym:
  assumes sym: "\<And>a b. P a b \<Longrightarrow> P b a"
  shows "sorted_wrt P (sort_key f xs) \<longleftrightarrow> sorted_wrt P xs"
proof (induction xs)
  case Nil
  show ?case by simp
next
  case (Cons x xs)
  have "sorted_wrt P (insort_key f x (sort_key f xs))
          \<longleftrightarrow> (\<forall>y \<in> set (sort_key f xs). P x y) \<and> sorted_wrt P (sort_key f xs)"
    using sym by (rule sorted_wrt_insort_key_sym)
  then show ?case using Cons.IH by (simp add: sort_key_simps)
qed

lemma queueNewPlan_loop_None:
  "(\<forall>x \<in> set xs. \<not> isPlanStart (snd x)) \<Longrightarrow> queueNewPlan_loop xs = (None, xs)"
  by (induction xs) (simp_all add: isPlanStart_def)

lemma queueNewPlan_loop_Some:
  "(\<forall>x \<in> set pre. \<not> isPlanStart (snd x)) \<Longrightarrow> isPlanStart (snd c) \<Longrightarrow>
   queueNewPlan_loop (pre @ c # post) = (Some (snd c), pre @ post)"
  by (induction pre) (simp_all add: isPlanStart_def)

lemma queueNewPlan_loop_cases:
  "(queueNewPlan_loop xs = (None, xs) \<and> (\<forall>x \<in> set xs. \<not> isPlanStart (snd x))) \<or>
   (\<exists>pre c post. xs = pre @ c # post \<and> (\<forall>x \<in> set pre. \<not> isPlanStart (snd x)) \<and>
      isPlanStart (snd c) \<and> queueNewPlan_loop xs = (Some (snd c), pre @ post))"
proof (cases "\<forall>x \<in> set xs. \<not> isPlanStart (snd x)")
  case True
  then show ?thesis by (simp add: queueNewPlan_loop_None)
next
  case False
  then have "\<exists>x \<in> set xs. isPlanStart (snd x)" by simp
  then obtain pre c post where
    xs: "xs = pre @ c # post" and c: "isPlanStart (snd c)"
    and pre: "\<forall>x \<in> set pre. \<not> isPlanStart (snd x)"
    using split_list_first_prop [of xs "\<lambda>x. isPlanStart (snd x)"] by blast
  have "queueNewPlan_loop xs = (Some (snd c), pre @ post)"
    unfolding xs using pre c by (rule queueNewPlan_loop_Some)
  with xs c pre show ?thesis by blast
qed

lemma queueAdditional_intents:
  "y \<in> set (queueAdditional rest) \<Longrightarrow> \<exists>r \<in> set rest. intentsOf y = intentsOf (snd r)"
proof (induction rest)
  case Nil
  then show ?case by simp
next
  case (Cons entry rest)
  show ?case
  proof (cases "y \<in> set (queueAdditional rest)")
    case True
    then show ?thesis using Cons.IH by auto
  next
    case False
    then have "y = snd entry \<or> y = (snd entry)\<lparr>changeType := doStepsLater\<rparr>"
      using Cons.prems by (cases "changeType (snd entry)") simp_all
    then have "intentsOf y = intentsOf (snd entry)"
      by (auto simp: intentsOf_def)
    then show ?thesis by simp
  qed
qed

lemma queueAdditional_disjoint_from:
  assumes "\<forall>r \<in> set rest. disjointIntents a (snd r)" and "y \<in> set (queueAdditional rest)"
  shows "disjointIntents a y"
proof -
  obtain r where "r \<in> set rest" "intentsOf y = intentsOf (snd r)"
    using queueAdditional_intents [OF assms(2)] by blast
  then show ?thesis using assms(1) by (simp add: disjointIntents_def)
qed

lemma queueAdditional_disjoint:
  "sorted_wrt disjointIntents (map snd rest) \<Longrightarrow>
   sorted_wrt disjointIntents (queueAdditional rest)"
proof (induction rest)
  case Nil
  show ?case by simp
next
  case (Cons entry rest)
  have ih: "sorted_wrt disjointIntents (queueAdditional rest)"
    using Cons by simp
  have "\<forall>r \<in> set rest. disjointIntents (snd entry) (snd r)"
    using Cons.prems by simp
  then have e: "\<forall>y \<in> set (queueAdditional rest). disjointIntents (snd entry) y"
    using queueAdditional_disjoint_from by blast
  show ?case
    using ih e by (cases "changeType (snd entry)") simp_all
qed

lemma findBestMatches_no_overlap:
  "sorted_wrt (\<lambda>a b. \<not> intentsOverlap a b) (map snd (findBestMatches cs))"
  using bestLoop_no_overlap [of "[]" cs] by (simp add: findBestMatches_def)

lemma findBestMatches_disjoint:
  "sorted_wrt disjointIntents (map snd (findBestMatches cs))"
  using findBestMatches_no_overlap [of cs]
  by (rule sorted_wrt_mono_rel [rotated])
     (simp add: disjointIntents_def not_intentsOverlap_disjoint)

lemma queuedChanges_disjoint:
  assumes "sorted_wrt disjointIntents (map snd applied)"
  shows "sorted_wrt disjointIntents (queuedChanges applied)"
proof -
  let ?sorted = "sort_key fst applied"
  have s: "sorted_wrt disjointIntents (map snd ?sorted)"
    using assms
      sorted_wrt_sort_key_sym [of "\<lambda>a b. disjointIntents (snd a) (snd b)" fst applied]
      disjointIntents_sym
    by (simp add: sorted_wrt_map)
  have "sorted_wrt disjointIntents
     (case queueNewPlan_loop ?sorted of
        (queued, rest) \<Rightarrow>
          (case queued of None \<Rightarrow> [] | Some change \<Rightarrow> [change]) @ queueAdditional rest)"
  proof -
    consider
      (none) "queueNewPlan_loop ?sorted = (None, ?sorted)"
    | (some) pre c post where "?sorted = pre @ c # post"
        "queueNewPlan_loop ?sorted = (Some (snd c), pre @ post)"
      using queueNewPlan_loop_cases [of ?sorted] by blast
    then show ?thesis
    proof cases
      case none
      then show ?thesis using s by (simp add: queueAdditional_disjoint)
    next
      case some
      have s': "sorted_wrt disjointIntents (map snd (pre @ c # post))"
        using s some(1) by simp
      then have rest: "sorted_wrt disjointIntents (map snd (pre @ post))"
        by (auto simp: sorted_wrt_append)
      have "\<forall>r \<in> set (pre @ post). disjointIntents (snd c) (snd r)"
        using s' disjointIntents_sym by (fastforce simp: sorted_wrt_append)
      then have "\<forall>y \<in> set (queueAdditional (pre @ post)). disjointIntents (snd c) y"
        using queueAdditional_disjoint_from by blast
      then show ?thesis
        using some(2) queueAdditional_disjoint [OF rest] by simp
    qed
  qed
  then show ?thesis
    by (simp add: queuedChanges_def Let_def)
qed

lemma sorted_wrt_disjoint_nth:
  assumes "sorted_wrt disjointIntents xs" and "i < length xs" and "j < length xs" and "i \<noteq> j"
  shows "intentsOf (xs ! i) \<inter> intentsOf (xs ! j) = {}"
proof (cases "i < j")
  case True
  then have "disjointIntents (xs ! i) (xs ! j)"
    using assms(1,3) by (simp add: sorted_wrt_iff_nth_less)
  then show ?thesis by (simp add: disjointIntents_def)
next
  case False
  then have "j < i" using assms(4) by simp
  then have "disjointIntents (xs ! j) (xs ! i)"
    using assms(1,2) by (simp add: sorted_wrt_iff_nth_less)
  then show ?thesis by (auto simp: disjointIntents_def)
qed

lemma queueAll_appends:
  "queueAll cs w = Some (Inr (), w\<lparr>ctx := (ctx w)\<lparr>changes := changes (ctx w) @ cs\<rparr>\<rparr>)"
  by (induction cs arbitrary: w) (simp_all add: ret_def bind_def queueChanges_def)

text \<open>
  What \<open>queueBestMatches\<close> queues: when the rules propose \<open>allChanges\<close>, the winners
  are \<open>findBestMatches allChanges\<close> and the queue of the planning context grows by
  \<open>queuedChanges\<close> of the winners.
\<close>

lemma queueBestMatches_queues:
  assumes "allChanges_loop rs 0 event [] w = Some (Inr allChanges, w')"
  shows "queueBestMatches rs event w =
     (if length (findBestMatches allChanges) > 0
      then Some (Inr True, w'\<lparr>ctx := (ctx w')\<lparr>changes :=
             changes (ctx w') @ queuedChanges (findBestMatches allChanges)\<rparr>\<rparr>)
      else Some (Inr False, w'))"
  using assms by (simp add: queueBestMatches_def bind_def Let_def queueAll_appends ret_def)

lemma findBestMatches_example:
  "findBestMatches [candidateA, candidateB, candidateC] = [(1, candidateB), (0, candidateC)]"
  by code_simp

text \<open>
  C2, as the claim states it, fails. With the candidates \<open>A = {a, b}\<close>,
  \<open>B = {b, c, d}\<close> and \<open>C = {a}\<close> (matched intents, no entities), \<open>B\<close> is selected
  first and removes \<open>A\<close>; then \<open>C\<close> is selected. \<open>C\<close> and \<open>A\<close> overlap, \<open>C\<close> is a
  winner and \<open>A\<close> is not, but \<open>C\<close> has fewer matched intents than \<open>A\<close>.
\<close>

theorem selected_beats_every_overlapping_counterexample:
  "\<not> (\<forall>allChanges c1 c2.
        c1 \<in> snd ` set (findBestMatches allChanges) \<and> c2 \<in> set allChanges \<and>
        c2 \<notin> snd ` set (findBestMatches allChanges) \<and> intentsOverlap c1 c2 \<longrightarrow>
        length (orEmpty (intentsMatched c1)) > length (orEmpty (intentsMatched c2)) \<or>
        (length (orEmpty (intentsMatched c1)) = length (orEmpty (intentsMatched c2)) \<and>
         length (orEmpty (entitiesMatched c1)) \<ge> length (orEmpty (entitiesMatched c2))))"
proof
  assume a: "\<forall>allChanges c1 c2.
        c1 \<in> snd ` set (findBestMatches allChanges) \<and> c2 \<in> set allChanges \<and>
        c2 \<notin> snd ` set (findBestMatches allChanges) \<and> intentsOverlap c1 c2 \<longrightarrow>
        length (orEmpty (intentsMatched c1)) > length (orEmpty (intentsMatched c2)) \<or>
        (length (orEmpty (intentsMatched c1)) = length (orEmpty (intentsMatched c2)) \<and>
         length (orEmpty (entitiesMatched c1)) \<ge> length (orEmpty (entitiesMatched c2)))"
  have "candidateC \<in> snd ` set (findBestMatches [candidateA, candidateB, candidateC])"
    by (simp add: findBestMatches_example)
  moreover have "candidateA \<in> set [candidateA, candidateB, candidateC]" by simp
  moreover have "candidateA \<notin> snd ` set (findBestMatches [candidateA, candidateB, candidateC])"
  proof -
    have "candidateA \<noteq> candidateB" "candidateA \<noteq> candidateC"
      by (simp_all add: candidateA_def candidateB_def candidateC_def exampleChange_def)
    then show ?thesis by (simp add: findBestMatches_example)
  qed
  moreover have "intentsOverlap candidateC candidateA"
    by (simp add: intentsOverlap_def candidateA_def candidateC_def exampleChange_def orEmpty_def)
  ultimately have
    "length (orEmpty (intentsMatched candidateC)) > length (orEmpty (intentsMatched candidateA)) \<or>
     (length (orEmpty (intentsMatched candidateC)) = length (orEmpty (intentsMatched candidateA)) \<and>
      length (orEmpty (entitiesMatched candidateC)) \<ge> length (orEmpty (entitiesMatched candidateA)))"
    using a by blast
  then show False
    by (simp add: candidateA_def candidateC_def exampleChange_def orEmpty_def)
qed

text \<open>
  C2, amended. For every finite list of candidates: any two distinct winners, and any
  two distinct queued change-lists, have disjoint sets of matched intents; and every
  candidate is a winner or overlaps a winner that has strictly more matched intents,
  or equally many matched intents and at least as many matched entities (the winner
  selected in the round that removed the candidate). A winner of a later round may
  overlap a candidate removed earlier and have fewer matched intents than it.
\<close>

theorem bestMatches_disjoint_and_preferred:
  "(\<forall>i j. i < length (findBestMatches allChanges) \<and> j < length (findBestMatches allChanges)
        \<and> i \<noteq> j \<longrightarrow>
      intentsOf (snd (findBestMatches allChanges ! i))
        \<inter> intentsOf (snd (findBestMatches allChanges ! j)) = {}) \<and>
   (\<forall>i j. i < length (queuedChanges (findBestMatches allChanges))
        \<and> j < length (queuedChanges (findBestMatches allChanges)) \<and> i \<noteq> j \<longrightarrow>
      intentsOf (queuedChanges (findBestMatches allChanges) ! i)
        \<inter> intentsOf (queuedChanges (findBestMatches allChanges) ! j) = {}) \<and>
   (\<forall>c \<in> set allChanges. \<exists>w \<in> snd ` set (findBestMatches allChanges).
      (w = c \<or> intentsOverlap w c) \<and>
      (length (orEmpty (intentsMatched w)) > length (orEmpty (intentsMatched c)) \<or>
       (length (orEmpty (intentsMatched w)) = length (orEmpty (intentsMatched c)) \<and>
        length (orEmpty (entitiesMatched w)) \<ge> length (orEmpty (entitiesMatched c)))))"
proof (intro conjI allI impI ballI)
  fix i j
  assume "i < length (findBestMatches allChanges) \<and> j < length (findBestMatches allChanges)
        \<and> i \<noteq> j"
  then show "intentsOf (snd (findBestMatches allChanges ! i))
        \<inter> intentsOf (snd (findBestMatches allChanges ! j)) = {}"
    using sorted_wrt_disjoint_nth [OF findBestMatches_disjoint, of i allChanges j] by simp
next
  fix i j
  assume "i < length (queuedChanges (findBestMatches allChanges))
        \<and> j < length (queuedChanges (findBestMatches allChanges)) \<and> i \<noteq> j"
  then show "intentsOf (queuedChanges (findBestMatches allChanges) ! i)
        \<inter> intentsOf (queuedChanges (findBestMatches allChanges) ! j) = {}"
    using sorted_wrt_disjoint_nth [OF queuedChanges_disjoint [OF findBestMatches_disjoint]]
    by simp
next
  fix c
  assume c: "c \<in> set allChanges"
  then have ne: "length allChanges > 0" by auto
  obtain w where w: "w \<in> snd ` set (bestLoop allChanges [])"
      "w = c \<or> intentsOverlap w c" "\<not> better (Some w) c"
    using bestLoop_covers [OF c, of "[]"] by blast
  have "length (orEmpty (intentsMatched w)) > length (orEmpty (intentsMatched c)) \<or>
       (length (orEmpty (intentsMatched w)) = length (orEmpty (intentsMatched c)) \<and>
        length (orEmpty (entitiesMatched w)) \<ge> length (orEmpty (entitiesMatched c)))"
    using w(3) by (auto simp: better_def split: if_splits)
  with w(1,2) ne show "\<exists>w \<in> snd ` set (findBestMatches allChanges).
      (w = c \<or> intentsOverlap w c) \<and>
      (length (orEmpty (intentsMatched w)) > length (orEmpty (intentsMatched c)) \<or>
       (length (orEmpty (intentsMatched w)) = length (orEmpty (intentsMatched c)) \<and>
        length (orEmpty (entitiesMatched w)) \<ge> length (orEmpty (entitiesMatched c))))"
    unfolding findBestMatches_def by auto
qed

theorem bestMatches_disjoint_and_preferred_witness:
  "findBestMatches [candidateA, candidateB, candidateC] = [(1, candidateB), (0, candidateC)] \<and>
   intentsOf candidateB \<inter> intentsOf candidateC = {} \<and>
   (\<exists>w \<in> {candidateB, candidateC}. intentsOverlap w candidateA \<and>
      length (orEmpty (intentsMatched w)) > length (orEmpty (intentsMatched candidateA)))"
proof -
  note t = bestMatches_disjoint_and_preferred [of "[candidateA, candidateB, candidateC]"]
  have d: "intentsOf candidateB \<inter> intentsOf candidateC = {}"
    using t [THEN conjunct1, rule_format, of 0 1] by (simp add: findBestMatches_example)
  have "intentsOverlap candidateB candidateA"
    by (simp add: intentsOverlap_def candidateA_def candidateB_def exampleChange_def orEmpty_def)
  moreover have "length (orEmpty (intentsMatched candidateB))
      > length (orEmpty (intentsMatched candidateA))"
    by (simp add: candidateA_def candidateB_def exampleChange_def orEmpty_def)
  ultimately show ?thesis using d findBestMatches_example by simp
qed

subsection \<open>At most one change starts a plan\<close>

lemma queueAdditional_no_planStart:
  "y \<in> set (queueAdditional rest) \<Longrightarrow> \<not> isPlanStart y"
proof (induction rest)
  case Nil
  then show ?case by simp
next
  case (Cons entry rest)
  show ?case
  proof (cases "y \<in> set (queueAdditional rest)")
    case True
    then show ?thesis by (rule Cons.IH)
  next
    case False
    then show ?thesis
      using Cons.prems by (cases "changeType (snd entry)") (auto simp: isPlanStart_def)
  qed
qed

lemma queueAdditional_demotes:
  "x \<in> set rest \<Longrightarrow> isPlanStart (snd x) \<Longrightarrow>
   (snd x)\<lparr>changeType := doStepsLater\<rparr> \<in> set (queueAdditional rest)"
proof (induction rest)
  case Nil
  then show ?case by simp
next
  case (Cons entry rest)
  show ?case
  proof (cases "x = entry")
    case True
    then show ?thesis
      using Cons.prems(2) by (cases "changeType (snd entry)") (simp_all add: isPlanStart_def)
  next
    case False
    then have "(snd x)\<lparr>changeType := doStepsLater\<rparr> \<in> set (queueAdditional rest)"
      using Cons by simp
    then show ?thesis by (cases "changeType (snd entry)") simp_all
  qed
qed

lemma filter_planStart_queueAdditional: "filter isPlanStart (queueAdditional rest) = []"
  using queueAdditional_no_planStart by (auto simp: filter_empty_conv)

lemma queuedChanges_planStarts: "length (filter isPlanStart (queuedChanges applied)) \<le> 1"
proof -
  let ?sorted = "sort_key fst applied"
  have "length (filter isPlanStart
     (case queueNewPlan_loop ?sorted of
        (queued, rest) \<Rightarrow>
          (case queued of None \<Rightarrow> [] | Some change \<Rightarrow> [change]) @ queueAdditional rest)) \<le> 1"
    using queueNewPlan_loop_cases [of ?sorted]
  proof (elim disjE exE conjE)
    assume "queueNewPlan_loop ?sorted = (None, ?sorted)"
    then show ?thesis by (simp add: filter_planStart_queueAdditional)
  next
    fix pre c post
    assume "queueNewPlan_loop ?sorted = (Some (snd c), pre @ post)"
    then show ?thesis by (simp add: filter_planStart_queueAdditional)
  qed
  then show ?thesis by (simp add: queuedChanges_def Let_def)
qed

lemma queuedChanges_later_planStarts:
  assumes len: "length applied > 1"
    and j: "j < length applied" "isPlanStart (snd (sort_key fst applied ! j))"
    and i: "i < j" "isPlanStart (snd (sort_key fst applied ! i))"
  shows "(snd (sort_key fst applied ! j))\<lparr>changeType := doStepsLater\<rparr>
           \<in> set (queuedChanges applied)"
proof -
  let ?sorted = "sort_key fst applied"
  have "\<exists>x \<in> set ?sorted. isPlanStart (snd x)"
    using j i by (metis length_sort nth_mem order.strict_trans)
  then obtain pre c post where
    s: "?sorted = pre @ c # post" and pre: "\<forall>x \<in> set pre. \<not> isPlanStart (snd x)"
    and q: "queueNewPlan_loop ?sorted = (Some (snd c), pre @ post)"
    using queueNewPlan_loop_cases [of ?sorted] by blast
  have "\<not> i < length pre"
  proof
    assume "i < length pre"
    then have "?sorted ! i \<in> set pre" by (simp add: s nth_append)
    then show False using pre i(2) by blast
  qed
  then have "length pre < j" using i(1) by simp
  moreover have "j < length (pre @ c # post)" using j(1) s by (metis length_sort)
  ultimately have "?sorted ! j \<in> set post"
    by (simp add: s nth_append nth_Cons')
  then have "?sorted ! j \<in> set (pre @ post)" by simp
  then have "(snd (?sorted ! j))\<lparr>changeType := doStepsLater\<rparr> \<in> set (queueAdditional (pre @ post))"
    using j(2) by (rule queueAdditional_demotes)
  moreover have "applied \<noteq> []" using len by auto
  ultimately show ?thesis
    using len q by (simp add: queuedChanges_def Let_def)
qed

lemma queuedChanges_first_planStart:
  assumes len: "length applied > 1"
    and j: "j < length applied" "isPlanStart (snd (sort_key fst applied ! j))"
    and first: "\<forall>i < j. \<not> isPlanStart (snd (sort_key fst applied ! i))"
  shows "queuedChanges applied ! 0 = snd (sort_key fst applied ! j)"
proof -
  let ?sorted = "sort_key fst applied"
  have "\<exists>x \<in> set ?sorted. isPlanStart (snd x)"
    using j by (metis length_sort nth_mem)
  then obtain pre c post where
    s: "?sorted = pre @ c # post" and pre: "\<forall>x \<in> set pre. \<not> isPlanStart (snd x)"
    and c: "isPlanStart (snd c)"
    and q: "queueNewPlan_loop ?sorted = (Some (snd c), pre @ post)"
    using queueNewPlan_loop_cases [of ?sorted] by blast
  have "\<not> j < length pre"
  proof
    assume "j < length pre"
    then have "?sorted ! j \<in> set pre" by (simp add: s nth_append)
    then show False using pre j(2) by blast
  qed
  moreover have "\<not> length pre < j"
  proof
    assume "length pre < j"
    then have "\<not> isPlanStart (snd (?sorted ! length pre))" using first by blast
    then show False using c by (simp add: s)
  qed
  ultimately have "j = length pre" by simp
  then have "?sorted ! j = c" by (simp add: s)
  moreover have "applied \<noteq> []" using len by auto
  ultimately show ?thesis
    using len q by (simp add: queuedChanges_def Let_def)
qed

text \<open>
  What holds of the changes queued for a list of winners: at most one of them has the
  change type \<open>newPlan\<close> or \<open>replacePlan\<close>. With more than one winner, the winner of
  such a type that comes first when the winners are sorted by their recorded index is
  queued first and as it is, and every other winner of such a type is queued with its
  change type rewritten to \<open>doStepsLater\<close>.
\<close>

lemma queuedChanges_one_new_plan:
  "length (filter isPlanStart (queuedChanges appliedChanges)) \<le> 1 \<and>
   (length appliedChanges > 1 \<longrightarrow>
      (\<forall>j < length appliedChanges.
         isPlanStart (snd (sort_key fst appliedChanges ! j)) \<longrightarrow>
           (if \<exists>i < j. isPlanStart (snd (sort_key fst appliedChanges ! i))
            then (snd (sort_key fst appliedChanges ! j))\<lparr>changeType := doStepsLater\<rparr>
                   \<in> set (queuedChanges appliedChanges)
            else queuedChanges appliedChanges ! 0 = snd (sort_key fst appliedChanges ! j))))"
  using queuedChanges_planStarts [of appliedChanges]
    queuedChanges_later_planStarts [of appliedChanges]
    queuedChanges_first_planStart [of appliedChanges]
  by auto

text \<open>
  The same of \<open>queueBestMatches\<close> itself: when the rules propose \<open>allChanges\<close>, it
  reports whether there is a winner and appends to the queue of the planning context
  the changes of the winners, of which at most one starts a plan.
\<close>

lemma queueBestMatches_one_plan_start:
  assumes "allChanges_loop rs 0 event [] w = Some (Inr allChanges, w')"
  shows "\<exists>queued.
      queueBestMatches rs event w =
        Some (Inr (length (findBestMatches allChanges) > 0),
              w'\<lparr>ctx := (ctx w')\<lparr>changes := changes (ctx w') @ queued\<rparr>\<rparr>) \<and>
      queued = queuedChanges (findBestMatches allChanges) \<and>
      length (filter isPlanStart queued) \<le> 1"
proof (cases "length (findBestMatches allChanges) > 0")
  case True
  then show ?thesis
    using queueBestMatches_queues [OF assms] queuedChanges_planStarts by simp
next
  case False
  then have "queuedChanges (findBestMatches allChanges) = []"
    by (simp add: queuedChanges_def)
  then show ?thesis
    using queueBestMatches_queues [OF assms] False by simp
qed

text \<open>
  C3 on the code. The recorded index of a winner is its position in \<open>allChanges\<close> at
  the moment it is selected, after the winners and the overlapping candidates of the
  earlier rounds were spliced out, and the winners are sorted by this index. Three
  rules propose, in this order, \<open>P\<close> with the intent \<open>a\<close>, the \<open>newPlan\<close> \<open>Q\<close> with
  the intents \<open>a\<close> and \<open>b\<close>, and the \<open>replacePlan\<close> \<open>R\<close> with the intent \<open>c\<close>. \<open>Q\<close> is
  selected at index \<open>1\<close> and removes \<open>P\<close>; then \<open>R\<close> is selected at index \<open>0\<close>. Sorted
  by index, \<open>R\<close> comes before \<open>Q\<close>: the later winner \<open>R\<close> is queued as \<open>replacePlan\<close>,
  and \<open>Q\<close>, the first winner that starts a plan, is queued as \<open>doStepsLater\<close>.
\<close>

theorem queueBestMatches_keeps_later_plan_start:
  "findBestMatches [overlappedCandidate, laterNew, laterReplace]
     = [(1, laterNew), (0, laterReplace)] \<and>
   queueBestMatches
       [constantRule [overlappedCandidate], constantRule [laterNew], constantRule [laterReplace]]
       utteranceEvent emptyWorld =
     Some (Inr True,
       emptyWorld\<lparr>ctx := (ctx emptyWorld)\<lparr>changes :=
                     [laterReplace, laterNew\<lparr>changeType := doStepsLater\<rparr>]\<rparr>,
                  calls := [EvaluateRule 0 (Some ''utteranceRecognized''),
                            EvaluateRule 1 (Some ''utteranceRecognized''),
                            EvaluateRule 2 (Some ''utteranceRecognized'')]\<rparr>)"
proof -
  have f: "findBestMatches [overlappedCandidate, laterNew, laterReplace]
     = [(1, laterNew), (0, laterReplace)]"
    by code_simp
  have q: "queuedChanges [(1, laterNew), (0, laterReplace)]
     = [laterReplace, laterNew\<lparr>changeType := doStepsLater\<rparr>]"
    by code_simp
  have a: "allChanges_loop
       [constantRule [overlappedCandidate], constantRule [laterNew], constantRule [laterReplace]]
       0 utteranceEvent [] emptyWorld =
     Some (Inr [overlappedCandidate, laterNew, laterReplace],
       emptyWorld\<lparr>calls := [EvaluateRule 0 (Some ''utteranceRecognized''),
                            EvaluateRule 1 (Some ''utteranceRecognized''),
                            EvaluateRule 2 (Some ''utteranceRecognized'')]\<rparr>)"
    by (simp add: bind_def evaluateRule_def call_def constantRule_def ret_def utteranceEvent_def
        PlanningEventNames_utteranceRecognized_def emptyWorld_def)
  show ?thesis
    unfolding queueBestMatches_queues [OF a] f q
    by (simp add: emptyWorld_def)
qed

section \<open>Properties of first match and of the recognizer\<close>

subsection \<open>First match\<close>

lemma evaluateRule_run:
  "evaluateRule rule i event w =
     Some (evaluate rule (ctx w) event, w\<lparr>calls := calls w @ [EvaluateRule i (eventName event)]\<rparr>)"
  by (simp add: evaluateRule_def call_def)

lemma queueFirstMatch_loop_first:
  "i < length rs \<Longrightarrow> evaluate (rs ! i) (ctx w) event = Inr (Some cs) \<Longrightarrow> cs \<noteq> [] \<Longrightarrow>
   (\<forall>m < i. evaluate (rs ! m) (ctx w) event = Inr None
            \<or> evaluate (rs ! m) (ctx w) event = Inr (Some [])) \<Longrightarrow>
   queueFirstMatch_loop rs k event w =
     Some (Inr True,
       w\<lparr>ctx := (ctx w)\<lparr>changes := changes (ctx w) @ [cs ! 0]\<rparr>,
         calls := calls w @ map (\<lambda>m. EvaluateRule m (eventName event)) [k ..< k + Suc i]\<rparr>)"
proof (induction rs arbitrary: i k w)
  case Nil
  then show ?case by simp
next
  case (Cons rule rest)
  show ?case
  proof (cases i)
    case 0
    then show ?thesis
      using Cons.prems(2,3)
      by (simp add: bind_def evaluateRule_run queueChanges_def ret_def)
  next
    case (Suc i')
    let ?w = "w\<lparr>calls := calls w @ [EvaluateRule k (eventName event)]\<rparr>"
    have skip: "evaluate rule (ctx w) event = Inr None
        \<or> evaluate rule (ctx w) event = Inr (Some [])"
      using Cons.prems(4) Suc by auto
    have step: "queueFirstMatch_loop (rule # rest) k event w
        = queueFirstMatch_loop rest (Suc k) event ?w"
      using skip by (auto simp: bind_def evaluateRule_run)
    have ih: "queueFirstMatch_loop rest (Suc k) event ?w =
      Some (Inr True,
       ?w\<lparr>ctx := (ctx ?w)\<lparr>changes := changes (ctx ?w) @ [cs ! 0]\<rparr>,
         calls := calls ?w @ map (\<lambda>m. EvaluateRule m (eventName event)) [Suc k ..< Suc k + Suc i']\<rparr>)"
    proof (rule Cons.IH)
      show "i' < length rest" using Cons.prems(1) Suc by simp
      show "evaluate (rest ! i') (ctx ?w) event = Inr (Some cs)"
        using Cons.prems(2) Suc by simp
      show "cs \<noteq> []" by (rule Cons.prems(3))
      show "\<forall>m < i'. evaluate (rest ! m) (ctx ?w) event = Inr None
            \<or> evaluate (rest ! m) (ctx ?w) event = Inr (Some [])"
        using Cons.prems(4) Suc by auto
    qed
    have u: "[k ..< k + Suc i] = k # [Suc k ..< Suc k + Suc i']"
      using Suc by (simp add: upt_conv_Cons)
    show ?thesis
      unfolding step ih u by (simp del: upt_Suc)
  qed
qed

text \<open>
  C4, as the claim states it, fails. Three rules that all return a change-list for
  the event: with \<open>i = 1\<close> and \<open>j = 2\<close> both rules match and rule \<open>i\<close> precedes rule \<open>j\<close>,
  but the change-list queued is the one of rule \<open>0\<close>, and rule \<open>i\<close> is not evaluated.
\<close>

theorem first_match_of_any_pair_counterexample:
  "\<not> (\<forall>rules event w i j ci cj.
        i < j \<and> j < length rules \<and>
        evaluate (rules ! i) (ctx w) event = Inr (Some ci) \<and> ci \<noteq> [] \<and>
        evaluate (rules ! j) (ctx w) event = Inr (Some cj) \<and> cj \<noteq> [] \<longrightarrow>
        (\<exists>w'. queueFirstMatch rules event w = Some (Inr True, w') \<and>
              changes (ctx w') = changes (ctx w) @ [ci ! 0]))"
proof
  assume a: "\<forall>rules event w i j ci cj.
        i < j \<and> j < length rules \<and>
        evaluate (rules ! i) (ctx w) event = Inr (Some ci) \<and> ci \<noteq> [] \<and>
        evaluate (rules ! j) (ctx w) event = Inr (Some cj) \<and> cj \<noteq> [] \<longrightarrow>
        (\<exists>w'. queueFirstMatch rules event w = Some (Inr True, w') \<and>
              changes (ctx w') = changes (ctx w) @ [ci ! 0])"
  let ?rules = "[constantRule [candidateA], constantRule [candidateB], constantRule [candidateC]]"
  have "\<exists>w'. queueFirstMatch ?rules someEvent emptyWorld = Some (Inr True, w') \<and>
      changes (ctx w') = changes (ctx emptyWorld) @ [[candidateB] ! 0]"
    by (rule a [rule_format, of 1 2 ?rules emptyWorld someEvent "[candidateB]" "[candidateC]"])
       (simp add: constantRule_def)
  moreover have "queueFirstMatch ?rules someEvent emptyWorld =
      Some (Inr True, emptyWorld\<lparr>ctx := (ctx emptyWorld)\<lparr>changes := [candidateA]\<rparr>,
        calls := [EvaluateRule 0 (Some ''greeting'')]\<rparr>)"
    by (simp add: queueFirstMatch_def bind_def evaluateRule_run constantRule_def
        queueChanges_def ret_def emptyWorld_def someEvent_def)
  ultimately have "[candidateA] = [candidateB]"
    by (simp add: emptyWorld_def)
  then show False
    by (simp add: candidateA_def candidateB_def exampleChange_def)
qed

text \<open>
  C4, amended. For a non-utterance event handled by first match: if rule \<open>i\<close> returns
  a non-empty list of change-lists and every rule registered before it returns none
  (\<open>undefined\<close> or an empty list), then exactly one change-list is queued, the first
  one returned by rule \<open>i\<close>; the rules \<open>0\<close> to \<open>i\<close> are evaluated, in this order, and no
  rule after \<open>i\<close> is evaluated, whatever it would return.
\<close>

theorem queueFirstMatch_first_rule_wins:
  assumes "i < length rs"
    and "evaluate (rs ! i) (ctx w) event = Inr (Some cs)" and "cs \<noteq> []"
    and "\<forall>m < i. evaluate (rs ! m) (ctx w) event = Inr None
            \<or> evaluate (rs ! m) (ctx w) event = Inr (Some [])"
  shows "queueFirstMatch rs event w =
     Some (Inr True,
       w\<lparr>ctx := (ctx w)\<lparr>changes := changes (ctx w) @ [cs ! 0]\<rparr>,
         calls := calls w @ map (\<lambda>m. EvaluateRule m (eventName event)) [0 ..< Suc i]\<rparr>)"
  using queueFirstMatch_loop_first [OF assms, of 0] by (simp add: queueFirstMatch_def)

theorem queueFirstMatch_first_rule_wins_witness:
  "queueFirstMatch [constantRule [], constantRule [candidateB, candidateA], constantRule [candidateC]]
     someEvent emptyWorld =
   Some (Inr True,
     emptyWorld\<lparr>ctx := (ctx emptyWorld)\<lparr>changes := [candidateB]\<rparr>,
       calls := [EvaluateRule 0 (Some ''greeting''), EvaluateRule 1 (Some ''greeting'')]\<rparr>)"
proof -
  let ?rules = "[constantRule [], constantRule [candidateB, candidateA], constantRule [candidateC]]"
  have "queueFirstMatch ?rules someEvent emptyWorld =
     Some (Inr True,
       emptyWorld\<lparr>ctx := (ctx emptyWorld)\<lparr>changes := changes (ctx emptyWorld) @ [[candidateB, candidateA] ! 0]\<rparr>,
         calls := calls emptyWorld @ map (\<lambda>m. EvaluateRule m (eventName someEvent)) [0 ..< Suc 1]\<rparr>)"
    by (rule queueFirstMatch_first_rule_wins) (simp_all add: constantRule_def)
  then show ?thesis
    by (simp add: emptyWorld_def someEvent_def)
qed

subsection \<open>The default recognizer result\<close>

lemma queueFirstMatch_loop_activity:
  "queueFirstMatch_loop rs k event w = Some (r, w1) \<Longrightarrow> activity (ctx w1) = activity (ctx w)"
proof (induction rs arbitrary: k w)
  case Nil
  then show ?case by (auto simp: ret_def)
next
  case (Cons rule rest)
  let ?w = "w\<lparr>calls := calls w @ [EvaluateRule k (eventName event)]\<rparr>"
  show ?case
  proof (cases "evaluate rule (ctx w) event")
    case (Inl e)
    then show ?thesis using Cons.prems by (auto simp: bind_def evaluateRule_run)
  next
    case (Inr changes)
    show ?thesis
    proof (cases "changes \<noteq> None \<and> length (the changes) > 0")
      case True
      then show ?thesis
        using Cons.prems Inr
        by (auto simp: bind_def evaluateRule_run queueChanges_def ret_def)
    next
      case False
      then have "queueFirstMatch_loop rest (Suc k) event ?w = Some (r, w1)"
        using Cons.prems Inr by (auto simp: bind_def evaluateRule_run)
      then have "activity (ctx w1) = activity (ctx ?w)" by (rule Cons.IH)
      then show ?thesis by simp
    qed
  qed
qed

lemma distinct_event_names:
  "PlanningEventNames_activityReceived \<noteq> PlanningEventNames_beginDialog"
  "PlanningEventNames_activityReceived \<noteq> PlanningEventNames_consultDialog"
  "PlanningEventNames_utteranceRecognized \<noteq> PlanningEventNames_beginDialog"
  "PlanningEventNames_utteranceRecognized \<noteq> PlanningEventNames_consultDialog"
  "PlanningEventNames_utteranceRecognized \<noteq> PlanningEventNames_activityReceived"
  "PlanningEventNames_fallback \<noteq> PlanningEventNames_beginDialog"
  "PlanningEventNames_fallback \<noteq> PlanningEventNames_consultDialog"
  "PlanningEventNames_fallback \<noteq> PlanningEventNames_activityReceived"
  "PlanningEventNames_fallback \<noteq> PlanningEventNames_utteranceRecognized"
  by (simp_all add: PlanningEventNames_beginDialog_def PlanningEventNames_consultDialog_def
      PlanningEventNames_activityReceived_def PlanningEventNames_utteranceRecognized_def
      PlanningEventNames_fallback_def)

text \<open>
  C9. With no recognizer assigned, \<open>onRecognize\<close> returns, without calling any
  collaborator, the result whose text is the text of the activity (the empty string
  when the activity has none), whose intents are exactly the intent \<open>None\<close> with score
  \<open>0.0\<close>, and whose entities are empty. When the activity of the turn is a message and
  no rule handles \<open>activityReceived\<close> by first match, \<open>evaluateRules\<close> dispatches
  \<open>utteranceRecognized\<close> with this result: best matches are evaluated for it.
\<close>

theorem onRecognize_without_recognizer:
  assumes "eventName event = Some PlanningEventNames_activityReceived"
    and "activityType (activity (ctx w)) = Some ActivityTypes_Message"
    and "queueFirstMatch rs event w = Some (Inr False, w1)"
  shows "onRecognize None w1 = Some (Inr (noneIntent (activity (ctx w))), w1) \<and>
    resultText (noneIntent (activity (ctx w)))
      = (case activityText (activity (ctx w)) of None \<Rightarrow> [] | Some t \<Rightarrow> t) \<and>
    intents (noneIntent (activity (ctx w))) = [(''None'', 0)] \<and>
    entities (noneIntent (activity (ctx w))) = [] \<and>
    evaluateRules (Suc (Suc n)) rs None event w =
      bind (queueBestMatches rs
              \<lparr>eventName = Some PlanningEventNames_utteranceRecognized,
               eventValue = Recognized (noneIntent (activity (ctx w))), bubble = False\<rparr>)
        (\<lambda>handled.
           if \<not> handled
           then evaluateRules n rs None
                  \<lparr>eventName = Some PlanningEventNames_fallback,
                   eventValue = Recognized (noneIntent (activity (ctx w))), bubble = False\<rparr>
           else ret handled) w1"
proof -
  have act: "activity (ctx w1) = activity (ctx w)"
    using assms(3) queueFirstMatch_loop_activity by (simp add: queueFirstMatch_def)
  have r: "onRecognize None w1 = Some (Inr (noneIntent (activity (ctx w))), w1)"
    by (simp add: onRecognize_def ret_def act)
  have t: "resultText (noneIntent (activity (ctx w)))
      = (case activityText (activity (ctx w)) of None \<Rightarrow> [] | Some t \<Rightarrow> t)"
    by (simp add: noneIntent_def split: option.split)
  have e: "evaluateRules (Suc (Suc n)) rs None event w =
      evaluateRules (Suc n) rs None
        \<lparr>eventName = Some PlanningEventNames_utteranceRecognized,
         eventValue = Recognized (noneIntent (activity (ctx w))), bubble = False\<rparr> w1"
    using assms r act by (simp add: distinct_event_names bind_def)
  have i: "intents (noneIntent (activity (ctx w))) = [(''None'', 0)]"
    "entities (noneIntent (activity (ctx w))) = []"
    by (simp_all add: noneIntent_def)
  have b: "evaluateRules (Suc n) rs None
        \<lparr>eventName = Some PlanningEventNames_utteranceRecognized,
         eventValue = Recognized (noneIntent (activity (ctx w))), bubble = False\<rparr> w1 =
      bind (queueBestMatches rs
              \<lparr>eventName = Some PlanningEventNames_utteranceRecognized,
               eventValue = Recognized (noneIntent (activity (ctx w))), bubble = False\<rparr>)
        (\<lambda>handled.
           if \<not> handled
           then evaluateRules n rs None
                  \<lparr>eventName = Some PlanningEventNames_fallback,
                   eventValue = Recognized (noneIntent (activity (ctx w))), bubble = False\<rparr>
           else ret handled) w1"
    by (simp add: distinct_event_names cong del: if_weak_cong)
  show ?thesis
    unfolding e b using r t i by simp
qed

theorem onRecognize_without_recognizer_witness:
  "onRecognize None messageWorld =
     Some (Inr \<lparr>resultText = ''hi'', intents = [(''None'', 0)], entities = []\<rparr>, messageWorld) \<and>
   evaluateRules 3 [] None activityReceivedEvent messageWorld = Some (Inr False, messageWorld)"
proof -
  have q: "queueFirstMatch [] activityReceivedEvent messageWorld = Some (Inr False, messageWorld)"
    by (simp add: queueFirstMatch_def ret_def)
  have a: "eventName activityReceivedEvent = Some PlanningEventNames_activityReceived"
    by (simp add: activityReceivedEvent_def)
  have m: "activityType (activity (ctx messageWorld)) = Some ActivityTypes_Message"
    by (simp add: messageWorld_def ActivityTypes_Message_def)
  note t = onRecognize_without_recognizer [OF a m q, of "Suc 0"]
  have n: "noneIntent (activity (ctx messageWorld))
      = \<lparr>resultText = ''hi'', intents = [(''None'', 0)], entities = []\<rparr>"
    by (simp add: noneIntent_def messageWorld_def)
  have h: "\<not> hasPlans (ctx messageWorld)"
    by (simp add: hasPlans_def messageWorld_def emptyWorld_def)
  have "evaluateRules (Suc (Suc (Suc 0))) [] None activityReceivedEvent messageWorld
      = Some (Inr False, messageWorld)"
    using t h
    by (simp add: queueBestMatches_def bind_def ret_def findBestMatches_def
        distinct_event_names queueFirstMatch_def)
  then show ?thesis using t n by (simp add: numeral_3_eq_3)
qed

section \<open>Properties of the turn driver\<close>

subsection \<open>Configuration errors\<close>

lemma getStorageKeys_error:
  assumes "(\<exists>u. patchUserId a (idOrUndefined (fromAccount a)) = Inr u \<and> \<not> truthyString u)
      \<or> \<not> truthyString (idOrUndefined (conversation a))"
  shows "\<exists>e. getStorageKeys a = Inl e \<and> e \<in> {UserIdNotFound, ConversationIdNotFound, TypeError}"
proof (cases "patchUserId a (idOrUndefined (fromAccount a))")
  case (Inl e)
  then have "e = TypeError"
    by (auto simp: patchUserId_def Let_def split: if_splits)
  then show ?thesis using Inl by (simp add: getStorageKeys_def)
next
  case (Inr u)
  then show ?thesis using assms by (auto simp: getStorageKeys_def Let_def)
qed

lemma getStorageKeys_only_errors:
  "getStorageKeys a = Inl e \<Longrightarrow> e \<in> {UserIdNotFound, ConversationIdNotFound, TypeError}"
  by (auto simp: getStorageKeys_def patchUserId_def Let_def split: if_splits sum.splits)

text \<open>
  C8. A call of \<open>onTurn\<close> with no state supplied raises an error, and neither calls
  the storage provider or a dialog nor changes the store, when no storage provider is
  assigned, or the user id that \<open>getStorageKeys\<close> derives (after the recovery from the
  members of a conversation update) is missing or empty, or the conversation id is
  missing or empty.
\<close>

theorem onTurn_raises_before_any_mutation:
  assumes "storage config = None
      \<or> (\<exists>u. patchUserId a (idOrUndefined (fromAccount a)) = Inr u \<and> \<not> truthyString u)
      \<or> \<not> truthyString (idOrUndefined (conversation a))"
  shows "\<exists>e. onTurn config a None now w = (Inl e, w)
      \<and> e \<in> {StorageNotAssigned, UserIdNotFound, ConversationIdNotFound, TypeError}"
proof (cases "getStorageKeys a")
  case (Inl e)
  then show ?thesis
    using getStorageKeys_only_errors [OF Inl] by (auto simp: onTurn_def)
next
  case (Inr keys)
  then have "storage config = None"
    using assms getStorageKeys_error [of a] by auto
  then show ?thesis using Inr by (simp add: onTurn_def)
qed

theorem onTurn_raises_before_any_mutation_witness:
  "onTurn configWithoutStorage messageActivity None 1546301401000 freshWorld
     = (Inl StorageNotAssigned, freshWorld) \<and>
   (\<exists>e. onTurn configWithoutStorage (messageActivity\<lparr>fromAccount := None\<rparr>) None
           1546301401000 freshWorld = (Inl e, freshWorld))"
proof -
  have "storage configWithoutStorage = None" by (simp add: configWithoutStorage_def)
  then have a: "\<exists>e. onTurn configWithoutStorage messageActivity None 1546301401000 freshWorld
      = (Inl e, freshWorld)
      \<and> e \<in> {StorageNotAssigned, UserIdNotFound, ConversationIdNotFound, TypeError}"
    using onTurn_raises_before_any_mutation
      [of configWithoutStorage messageActivity 1546301401000 freshWorld]
    by simp
  have k: "getStorageKeys messageActivity
      = Inr \<lparr>userStateKey = ''emulator/users/user1'',
             conversationStateKey = ''emulator/conversations/conv1''\<rparr>"
    by (simp add: getStorageKeys_def messageActivity_def emptyActivity_def idOrUndefined_def
        truthyString_def patchUserId_def templateString_def
        ActivityTypes_ConversationUpdate_def)
  have b: "onTurn configWithoutStorage messageActivity None 1546301401000 freshWorld
     = (Inl StorageNotAssigned, freshWorld)"
    using a by (simp add: onTurn_def k configWithoutStorage_def)
  have "patchUserId (messageActivity\<lparr>fromAccount := None\<rparr>)
          (idOrUndefined (fromAccount (messageActivity\<lparr>fromAccount := None\<rparr>))) = Inr None"
    by (simp add: messageActivity_def emptyActivity_def idOrUndefined_def patchUserId_def
        ActivityTypes_ConversationUpdate_def)
  then have "\<exists>e. onTurn configWithoutStorage (messageActivity\<lparr>fromAccount := None\<rparr>) None
           1546301401000 freshWorld = (Inl e, freshWorld)
      \<and> e \<in> {StorageNotAssigned, UserIdNotFound, ConversationIdNotFound, TypeError}"
    using onTurn_raises_before_any_mutation
      [of configWithoutStorage "messageActivity\<lparr>fromAccount := None\<rparr>" 1546301401000 freshWorld]
    by (simp add: truthyString_def)
  then show ?thesis using b by blast
qed

subsection \<open>Saving only what changed\<close>

text \<open>
  C5, as the claim states it, fails. The user state \<open>{b: "y", a: "x"}\<close> after the
  turn is deep-equal to the user state \<open>{a: "x", b: "y"}\<close> before it, and the
  conversation states are the same, but the JSON texts of the user states differ and
  \<open>storage.write\<close> is called with the user state.
\<close>

theorem deep_equal_state_not_written_counterexample:
  "\<not> (\<forall>(provider :: unit Storage) keys new old eTag w.
        deepEqual (JObj (userState new)) (JObj (userState old)) \<and>
        deepEqual (JObj (conversationState new)) (JObj (conversationState old)) \<longrightarrow>
        turnCalls (snd (snd (saveBotState provider keys new (Some old) eTag w))) = turnCalls w)"
proof
  assume a: "\<forall>(provider :: unit Storage) keys new old eTag w.
        deepEqual (JObj (userState new)) (JObj (userState old)) \<and>
        deepEqual (JObj (conversationState new)) (JObj (conversationState old)) \<longrightarrow>
        turnCalls (snd (snd (saveBotState provider keys new (Some old) eTag w))) = turnCalls w"
  have d: "deepEqual (JObj (userState stateBA)) (JObj (userState stateAB))"
    "deepEqual (JObj (conversationState stateBA)) (JObj (conversationState stateAB))"
    by (simp_all add: stateAB_def stateBA_def insert_commute)
  have s: "saveBotState memoryStorage exampleKeys stateBA (Some stateAB) None freshWorld
      = (Inr (), stateBA,
         freshWorld\<lparr>turnCalls :=
           [StorageWrite [(''emulator/users/user1'', [(''b'', JStr ''y''), (''a'', JStr ''x'')])]]\<rparr>)"
    by (simp add: saveBotState_def stateAB_def stateBA_def memoryStorage_def exampleKeys_def
        freshWorld_def stampETag_def quote_def)
  have "turnCalls (snd (snd (saveBotState memoryStorage exampleKeys stateBA (Some stateAB) None
      freshWorld))) = turnCalls freshWorld"
    using a d by blast
  then show False unfolding s by (simp add: freshWorld_def)
qed

text \<open>
  C5, amended. When \<open>saveBotState\<close> is called with the state before the turn, and the
  JSON text of the user state after the turn is the JSON text of the user state
  before it, and likewise for the conversation state (as when both are unchanged,
  the order of their properties included), then \<open>storage.write\<close> is not called, the
  store is as it was, and no \<open>eTag\<close> is assigned.
\<close>

theorem saveBotState_unchanged_no_write:
  assumes "JSON_stringify (JObj (userState new)) = JSON_stringify (JObj (userState old))"
    and "JSON_stringify (JObj (conversationState new))
          = JSON_stringify (JObj (conversationState old))"
  shows "saveBotState provider keys new (Some old) eTag w = (Inr (), new, w)"
  using assms by (simp add: saveBotState_def)

theorem saveBotState_unchanged_no_write_witness:
  "saveBotState memoryStorage exampleKeys stateAB (Some stateAB) (Some ''*'') freshWorld
     = (Inr (), stateAB, freshWorld)"
  by (rule saveBotState_unchanged_no_write) simp_all

subsection \<open>Expired conversations\<close>

text \<open>
  The conversation state that the dialogs of the turn run on does not depend on
  \<open>expireAfter\<close>: the check for an expired conversation assigns to \<open>state\<close>, and the
  dialog context is created over \<open>newState\<close>.
\<close>

lemma prepareState_newState_ignores_expiry:
  "snd (prepareState dateOf toISO expiry now state) = snd (prepareState dateOf toISO None now state)"
  by (simp add: prepareState_def Let_def)

text \<open>
  C1 on the code. With \<open>expireAfter = 600000\<close> and a conversation last accessed
  601000 ms before the turn, the turn continues the dialog on the conversation state
  as it was loaded: the dialog sees the dialog stack of the expired conversation, and
  the state returned keeps every property. Only the caller's \<open>state\<close> object was reset.
\<close>

theorem onTurn_expired_conversation_not_reset:
  "onTurn configWithoutStorage messageActivity (Some expiredState) 1546301401000 freshWorld =
     (Inr \<lparr>turnResult =
             \<lparr>status = Waiting,
              result = JObj [(''dialogStack'', JArr [JObj [(''id'', JStr ''askName'')]])],
              parentEnded = False\<rparr>,
           newState = Some
             \<lparr>userState = [],
              conversationState =
                [(''eTag'', JStr ''1''),
                 (''_dialogs'', JObj [(''dialogStack'', JArr [JObj [(''id'', JStr ''askName'')]])]),
                 (''_lastAccess'', JStr ''2019-01-01T00:10:01.000Z''),
                 (''name'', JStr ''Alice'')]\<rparr>\<rparr>,
      freshWorld\<lparr>turnCalls := [ContinueDialog]\<rparr>) \<and>
   fst (prepareState exampleDateTime exampleToISOString (Some 600000) 1546301401000 expiredState)
     = \<lparr>userState = [], conversationState = [(''eTag'', JStr ''1'')]\<rparr>"
proof -
  have k: "getStorageKeys messageActivity
      = Inr \<lparr>userStateKey = ''emulator/users/user1'',
             conversationStateKey = ''emulator/conversations/conv1''\<rparr>"
    by (simp add: getStorageKeys_def messageActivity_def emptyActivity_def idOrUndefined_def
        truthyString_def patchUserId_def templateString_def
        ActivityTypes_ConversationUpdate_def)
  have p: "prepareState exampleDateTime exampleToISOString (Some 600000) 1546301401000 expiredState
     = (\<lparr>userState = [], conversationState = [(''eTag'', JStr ''1'')]\<rparr>,
        \<lparr>userState = [],
         conversationState =
           [(''eTag'', JStr ''1''),
            (''_dialogs'', JObj [(''dialogStack'', JArr [JObj [(''id'', JStr ''askName'')]])]),
            (''_lastAccess'', JStr ''2019-01-01T00:10:01.000Z''),
            (''name'', JStr ''Alice'')]\<rparr>)"
    by (simp add: prepareState_def expiredState_def cloneObject_def
        exampleDateTime_def exampleToISOString_def Let_def)
  show ?thesis
    by (simp add: onTurn_def k turnBody_def configWithoutStorage_def p executeComponent_def
        noRunner_def freshWorld_def)
qed

section \<open>Properties of plan execution\<close>

subsection \<open>The unique instance id\<close>

lemma call_run:
  "call c f w = Some (fst (f (ctx w)), w\<lparr>ctx := snd (f (ctx w)), calls := calls w @ [c]\<rparr>)"
  by (simp add: call_def split: prod.split)

lemma runStep_calls:
  assumes "runStep d consultation w = Some (r, w')"
  shows "\<exists>cs. calls w' = calls w @ cs \<and> EndStep \<notin> set cs \<and> ApplyChanges \<notin> set cs
           \<and> StepConsult \<notin> set cs"
proof (cases "createForStep (ctx w)")
  case None
  then show ?thesis
    using assms by (simp add: runStep_def bind_def currentStep_def throw_def)
next
  case (Some s)
  define m :: "DialogTurnResult exec" where
    "m = (case consultation of
             Some c \<Rightarrow> call StepProcess (processor c)
           | None \<Rightarrow> ret \<lparr>status = Empty, result = JUndefined, parentEnded = False\<rparr>)"
  obtain r1 w1 where m1: "m w = Some (r1, w1)"
    by (cases consultation) (auto simp: m_def ret_def call_run)
  have c1: "calls w1 = calls w \<or> calls w1 = calls w @ [StepProcess]"
    using m1 by (cases consultation) (auto simp: m_def ret_def call_run)
  have unf: "runStep d consultation w =
      (case r1 of
         Inl e \<Rightarrow> Some (Inl e, w1)
       | Inr res \<Rightarrow>
           (if status res = Empty \<and> \<not> parentEnded res
            then bind currentStep (\<lambda>nextStep.
              call (StepBegin (dialogId nextStep))
                (stepBeginDialog d (dialogId nextStep) (stepOptions nextStep))) w1
            else ret res w1))"
    using Some m1
    by (simp add: runStep_def bind_def currentStep_def ret_def m_def [symmetric] split: sum.split)
  show ?thesis
  proof (cases r1)
    case (Inl e)
    then have "w' = w1" using assms unf by simp
    then show ?thesis using c1 by auto
  next
    case (Inr res)
    show ?thesis
    proof (cases "status res = Empty \<and> \<not> parentEnded res")
      case False
      then have "w' = w1" using assms unf Inr by (auto simp: ret_def)
      then show ?thesis using c1 by auto
    next
      case True
      show ?thesis
      proof (cases "createForStep (ctx w1)")
        case None
        then have "w' = w1"
          using assms unf Inr True by (simp add: bind_def currentStep_def throw_def)
        then show ?thesis using c1 by auto
      next
        case (Some nextStep)
        then have "calls w' = calls w1 @ [StepBegin (dialogId nextStep)]"
          using assms unf Inr True
          by (auto simp: bind_def currentStep_def ret_def call_run)
        then show ?thesis using c1 by auto
      qed
    qed
  qed
qed

text \<open>
  C6. \<open>consultPlan\<close> captures the unique instance id (the depth of the stack and the
  id of the active instance, joined by a colon) after it applied the queued changes
  and before it consults the current step. When the processor it returns has run the
  step, and the result carries \<open>parentEnded\<close> or the unique instance id is no longer the
  captured one, the processor returns the result of the step with the flag
  \<open>parentEnded\<close> removed and leaves the world as the step left it: \<open>endStep\<close> is not
  called, the plan is not consulted again, and \<open>continuePlan\<close> is not run.
\<close>

theorem consultPlan_returns_step_result_when_removed:
  assumes "call ApplyChanges (applyChanges d) w = Some (Inr (), wa)"
    and "createForStep (ctx wa) = Some step"
    and "call StepConsult (stepConsultDialog d) wa = Some (Inr consultation, wc)"
    and "runStep d consultation wp = Some (Inr res, ws)"
    and "parentEnded res \<or> getUniqueInstanceId (ctx ws) \<noteq> getUniqueInstanceId (ctx wa)"
  shows "\<exists>c. consultPlan d continuePlan' w = Some (Inr c, wc) \<and>
      processor c wp = Some (Inr (Some (res\<lparr>parentEnded := False\<rparr>)), ws) \<and>
      (\<exists>cs. calls ws = calls wp @ cs \<and> EndStep \<notin> set cs \<and> ApplyChanges \<notin> set cs
          \<and> StepConsult \<notin> set cs) \<and>
      getUniqueInstanceId (ctx wa) =
        (if stack (ctx wa) = [] then []
         else showNat (length (stack (ctx wa))) @ '':'' @ instance_id (last (stack (ctx wa))))"
proof -
  let ?c = "\<lparr>desire = (case consultation of Some c \<Rightarrow> desire c | None \<Rightarrow> canProcess),
            processor = consultPlan_processor d continuePlan' (getUniqueInstanceId (ctx wa))
                          (Some step) consultation\<rparr>"
  have 1: "consultPlan d continuePlan' w = Some (Inr ?c, wc)"
    using assms(1,2,3) by (simp add: consultPlan_def bind_def Let_def ret_def)
  have 2: "processor ?c wp = Some (Inr (Some (res\<lparr>parentEnded := False\<rparr>)), ws)"
    using assms(4,5)
    by (auto simp: consultPlan_processor_def bind_def processStepResult_def ret_def)
  have 3: "\<exists>cs. calls ws = calls wp @ cs \<and> EndStep \<notin> set cs \<and> ApplyChanges \<notin> set cs
          \<and> StepConsult \<notin> set cs"
    using assms(4) by (rule runStep_calls)
  have 4: "getUniqueInstanceId (ctx wa) =
        (if stack (ctx wa) = [] then []
         else showNat (length (stack (ctx wa))) @ '':'' @ instance_id (last (stack (ctx wa))))"
    by (simp add: getUniqueInstanceId_def)
  from 1 2 3 4 show ?thesis by blast
qed

theorem consultPlan_returns_step_result_when_removed_witness:
  "\<exists>c. consultPlan cancellingDialog (\<lambda>w. None) planningWorld =
          Some (Inr c, planningWorld\<lparr>calls := [ApplyChanges, StepConsult]\<rparr>) \<and>
       processor c (planningWorld\<lparr>calls := [ApplyChanges, StepConsult]\<rparr>) =
          Some (Inr (Some cancelledResult),
                planningWorld\<lparr>ctx := (ctx planningWorld)\<lparr>stack := []\<rparr>,
                               calls := [ApplyChanges, StepConsult, StepProcess]\<rparr>)"
proof -
  let ?wa = "planningWorld\<lparr>calls := [ApplyChanges]\<rparr>"
  let ?wc = "planningWorld\<lparr>calls := [ApplyChanges, StepConsult]\<rparr>"
  let ?ws = "planningWorld\<lparr>ctx := (ctx planningWorld)\<lparr>stack := []\<rparr>,
                               calls := [ApplyChanges, StepConsult, StepProcess]\<rparr>"
  let ?consultation = "Some \<lparr>desire = shouldProcess,
      processor = (\<lambda>p. (Inr cancelledResult, p\<lparr>stack := []\<rparr>))\<rparr>"
  let ?step = "\<lparr>dialogId = ''askName'', stepOptions = JUndefined, dialogStack = None\<rparr>"
  have a1: "call ApplyChanges (applyChanges cancellingDialog) planningWorld = Some (Inr (), ?wa)"
    by (simp add: call_def cancellingDialog_def planningWorld_def emptyWorld_def)
  have a2: "createForStep (ctx ?wa) = Some ?step"
    by (simp add: createForStep_def planningWorld_def emptyWorld_def)
  have a3: "call StepConsult (stepConsultDialog cancellingDialog) ?wa
      = Some (Inr ?consultation, ?wc)"
    by (simp add: call_def cancellingDialog_def planningWorld_def emptyWorld_def)
  have a4: "runStep cancellingDialog ?consultation ?wc
      = Some (Inr cancelledResult, ?ws)"
    by (simp add: runStep_def bind_def currentStep_def createForStep_def ret_def call_def
        cancelledResult_def planningWorld_def emptyWorld_def)
  have a5: "parentEnded cancelledResult
      \<or> getUniqueInstanceId (ctx ?ws) \<noteq> getUniqueInstanceId (ctx ?wa)"
    by (simp add: getUniqueInstanceId_def planningWorld_def emptyWorld_def showNat.simps)
  have "cancelledResult\<lparr>parentEnded := False\<rparr> = cancelledResult"
    by (simp add: cancelledResult_def)
  then show ?thesis
    using consultPlan_returns_step_result_when_removed [OF a1 a2 a3 a4 a5, of "\<lambda>w. None"]
    by auto
qed

subsection \<open>Errors at the dialog boundary\<close>

lemma tryCatch_throws:
  "m w = Some (Inl err, w1) \<Longrightarrow> tryCatch m h w = h err w1"
  by (simp add: tryCatch_def)

lemma tryCatch_no_escape:
  assumes "\<And>err w1 e w2. h err w1 \<noteq> Some (Inl e, w2)"
  shows "tryCatch m h w \<noteq> Some (Inl e, w')"
  using assms by (auto simp: tryCatch_def split: option.splits sum.splits)

lemma cancelOnError_run:
  "cancelOnError d err w =
     (case cancelAllDialogs d ''error'' (errorDetails err) (ctx w) of
        (Inl e, p) \<Rightarrow>
          Some (Inl e, w\<lparr>ctx := p, calls := calls w @ [CancelAllDialogs ''error'' (errorDetails err)]\<rparr>)
      | (Inr res, p) \<Rightarrow>
          Some (Inr (Some res),
                w\<lparr>ctx := p, calls := calls w @ [CancelAllDialogs ''error'' (errorDetails err)]\<rparr>))"
  by (simp add: cancelOnError_def bind_def call_def ret_def split: prod.split sum.split)

lemma cancelOnError_no_escape:
  assumes "\<And>reason details p. \<exists>res p'. cancelAllDialogs d reason details p = (Inr res, p')"
  shows "cancelOnError d err w \<noteq> Some (Inl e, w')"
proof -
  obtain res p' where "cancelAllDialogs d ''error'' (errorDetails err) (ctx w) = (Inr res, p')"
    using assms by blast
  then show ?thesis by (simp add: cancelOnError_run)
qed

text \<open>
  What the three \<open>catch\<close> blocks do. An error thrown in the \<open>try\<close> block of
  \<open>beginDialog\<close>, in the \<open>try\<close> block of \<open>consultDialog\<close>, or in \<open>continuePlan\<close> (by
  the consultation of the plan or by the processor it returns) is converted into
  \<open>cancelAllDialogs('error', { message, stack })\<close> with the message and the stack of
  the error: \<open>beginDialog\<close> and \<open>continuePlan\<close> return what this call returns, and
  \<open>consultDialog\<close> returns a consultation that should process, whose processor makes
  this call. When \<open>cancelAllDialogs\<close> always returns a turn result, no exception leaves
  \<open>beginDialog\<close> (called with an active dialog), \<open>continuePlan\<close> or \<open>consultDialog\<close>
  themselves.
\<close>

lemma catch_blocks_convert_errors:
  "(stack (ctx w) \<noteq> [] \<and> beginDialog_try n d opts w = Some (Inl err, w1) \<longrightarrow>
      beginDialog n d opts w = cancelOnError d err w1) \<and>
   (bind (consultPlan d (continuePlan n d)) processor w = Some (Inl err, w1) \<longrightarrow>
      continuePlan (Suc n) d w = cancelOnError d err w1) \<and>
   (consultDialog_try n d w = Some (Inl err, w1) \<longrightarrow>
      consultDialog n d w =
        Some (Inr \<lparr>desire = shouldProcess, processor = cancelOnError d err\<rparr>, w1)) \<and>
   (cancelAllDialogs d ''error''
        (JObj [(''message'', JStr (message err)), (''stack'', JStr (errorStack err))]) (ctx w1)
      = (Inr res, p) \<longrightarrow>
      cancelOnError d err w1 =
        Some (Inr (Some res),
          w1\<lparr>ctx := p,
             calls := calls w1 @ [CancelAllDialogs ''error''
               (JObj [(''message'', JStr (message err)), (''stack'', JStr (errorStack err))])]\<rparr>)) \<and>
   ((\<forall>reason details q. \<exists>r q'. cancelAllDialogs d reason details q = (Inr r, q')) \<longrightarrow>
      (stack (ctx w) \<noteq> [] \<longrightarrow> beginDialog n d opts w \<noteq> Some (Inl e, w')) \<and>
      continuePlan n d w \<noteq> Some (Inl e, w') \<and>
      consultDialog n d w \<noteq> Some (Inl e', w'))"
proof -
  have a: "stack (ctx w) \<noteq> [] \<and> beginDialog_try n d opts w = Some (Inl err, w1) \<longrightarrow>
      beginDialog n d opts w = cancelOnError d err w1"
    by (simp add: beginDialog_def tryCatch_throws)
  have b: "bind (consultPlan d (continuePlan n d)) processor w = Some (Inl err, w1) \<longrightarrow>
      continuePlan (Suc n) d w = cancelOnError d err w1"
    by (simp add: tryCatch_throws)
  have c: "consultDialog_try n d w = Some (Inl err, w1) \<longrightarrow>
      consultDialog n d w =
        Some (Inr \<lparr>desire = shouldProcess, processor = cancelOnError d err\<rparr>, w1)"
    by (simp add: consultDialog_def tryCatch_throws ret_def)
  have r: "cancelAllDialogs d ''error''
        (JObj [(''message'', JStr (message err)), (''stack'', JStr (errorStack err))]) (ctx w1)
      = (Inr res, p) \<longrightarrow>
      cancelOnError d err w1 =
        Some (Inr (Some res),
          w1\<lparr>ctx := p,
             calls := calls w1 @ [CancelAllDialogs ''error''
               (JObj [(''message'', JStr (message err)), (''stack'', JStr (errorStack err))])]\<rparr>)"
    by (simp add: cancelOnError_run errorDetails_def)
  have x: "(\<forall>reason details q. \<exists>r q'. cancelAllDialogs d reason details q = (Inr r, q')) \<longrightarrow>
      (stack (ctx w) \<noteq> [] \<longrightarrow> beginDialog n d opts w \<noteq> Some (Inl e, w')) \<and>
      continuePlan n d w \<noteq> Some (Inl e, w') \<and>
      consultDialog n d w \<noteq> Some (Inl e', w')"
  proof
    assume cc: "\<forall>reason details q. \<exists>r q'. cancelAllDialogs d reason details q = (Inr r, q')"
    have h: "\<And>err w1 e w2. cancelOnError d err w1 \<noteq> Some (Inl e, w2)"
      using cc by (intro cancelOnError_no_escape) blast
    have x1: "stack (ctx w) \<noteq> [] \<longrightarrow> beginDialog n d opts w \<noteq> Some (Inl e, w')"
      using tryCatch_no_escape [of "cancelOnError d", OF h] by (simp add: beginDialog_def)
    have x2: "continuePlan n d w \<noteq> Some (Inl e, w')"
      using tryCatch_no_escape [of "cancelOnError d", OF h] by (cases n) simp_all
    have x3: "consultDialog n d w \<noteq> Some (Inl e', w')"
      unfolding consultDialog_def by (rule tryCatch_no_escape) (simp add: ret_def)
    from x1 x2 x3 show "(stack (ctx w) \<noteq> [] \<longrightarrow> beginDialog n d opts w \<noteq> Some (Inl e, w')) \<and>
      continuePlan n d w \<noteq> Some (Inl e, w') \<and>
      consultDialog n d w \<noteq> Some (Inl e', w')" by simp
  qed
  from a b c r x show ?thesis by (intro conjI)
qed

lemma catch_blocks_convert_errors_example:
  "continuePlan 1 failingDialog planningWorld =
     Some (Inr (Some cancelledResult),
       planningWorld\<lparr>ctx := (ctx planningWorld)\<lparr>stack := []\<rparr>,
         calls := [ApplyChanges,
           CancelAllDialogs ''error''
             (JObj [(''message'', JStr ''boom''), (''stack'', JStr ''at applyChanges'')])]\<rparr>) \<and>
   beginDialog 1 failingRuleDialog JUndefined planningWorld =
     Some (Inr (Some cancelledResult),
       planningWorld\<lparr>ctx := (ctx planningWorld)\<lparr>stack := [], options := JObj []\<rparr>,
         installedDependencies := True,
         calls := [EvaluateRule 0 (Some ''beginDialog''),
           CancelAllDialogs ''error''
             (JObj [(''message'', JStr ''boom''), (''stack'', JStr ''at evaluate'')])]\<rparr>) \<and>
   (\<exists>c. consultDialog 1 failingDialog planningWorld
           = Some (Inr c, planningWorld\<lparr>calls := [ApplyChanges]\<rparr>) \<and> desire c = shouldProcess \<and>
         processor c (planningWorld\<lparr>calls := [ApplyChanges]\<rparr>) =
           Some (Inr (Some cancelledResult),
             planningWorld\<lparr>ctx := (ctx planningWorld)\<lparr>stack := []\<rparr>,
               calls := [ApplyChanges,
                 CancelAllDialogs ''error''
                   (JObj [(''message'', JStr ''boom''), (''stack'', JStr ''at applyChanges'')])]\<rparr>))"
proof -
  let ?err = "\<lparr>message = ''boom'', errorStack = ''at applyChanges''\<rparr>"
  let ?err2 = "\<lparr>message = ''boom'', errorStack = ''at evaluate''\<rparr>"
  let ?w1 = "planningWorld\<lparr>calls := [ApplyChanges]\<rparr>"
  let ?wb = "planningWorld\<lparr>ctx := (ctx planningWorld)\<lparr>options := JObj []\<rparr>,
         installedDependencies := True, calls := [EvaluateRule 0 (Some ''beginDialog'')]\<rparr>"
  note t = catch_blocks_convert_errors
  have st: "stack (ctx planningWorld) \<noteq> []"
    by (simp add: planningWorld_def emptyWorld_def)
  have cp: "consultPlan failingDialog k planningWorld = Some (Inl ?err, ?w1)" for k
    by (simp add: consultPlan_def bind_def call_def failingDialog_def cancellingDialog_def
        planningWorld_def emptyWorld_def)
  have c0: "bind (consultPlan failingDialog (continuePlan 0 failingDialog)) processor planningWorld
      = Some (Inl ?err, ?w1)"
    by (simp add: bind_def cp)
  have cancel: "cancelOnError failingDialog ?err w =
      Some (Inr (Some cancelledResult),
        w\<lparr>ctx := (ctx w)\<lparr>stack := []\<rparr>,
          calls := calls w @ [CancelAllDialogs ''error''
             (JObj [(''message'', JStr ''boom''), (''stack'', JStr ''at applyChanges'')])]\<rparr>)" for w
    using t [of w 0 failingDialog JUndefined ?err w cancelledResult "(ctx w)\<lparr>stack := []\<rparr>"]
    by (simp add: failingDialog_def cancellingDialog_def)
  have cancel2: "cancelOnError failingRuleDialog ?err2 w =
      Some (Inr (Some cancelledResult),
        w\<lparr>ctx := (ctx w)\<lparr>stack := []\<rparr>,
          calls := calls w @ [CancelAllDialogs ''error''
             (JObj [(''message'', JStr ''boom''), (''stack'', JStr ''at evaluate'')])]\<rparr>)" for w
    using t [of w 0 failingRuleDialog JUndefined ?err2 w cancelledResult "(ctx w)\<lparr>stack := []\<rparr>"]
    by (simp add: failingRuleDialog_def cancellingDialog_def)
  have 1: "continuePlan 1 failingDialog planningWorld = cancelOnError failingDialog ?err ?w1"
    using t [of planningWorld 0 failingDialog JUndefined ?err ?w1] c0 by simp
  have bt: "beginDialog_try 1 failingRuleDialog JUndefined planningWorld = Some (Inl ?err2, ?wb)"
    by (simp add: beginDialog_try_def bind_def installDependencies_def persistOptions_def
        ret_def queueFirstMatch_def evaluateRule_run
        failingRuleDialog_def cancellingDialog_def planningWorld_def emptyWorld_def
        PlanningEventNames_beginDialog_def)
  have 2: "beginDialog 1 failingRuleDialog JUndefined planningWorld
      = cancelOnError failingRuleDialog ?err2 ?wb"
    using t [of planningWorld 1 failingRuleDialog JUndefined ?err2 ?wb] st bt by simp
  have ct: "consultDialog_try 1 failingDialog planningWorld = Some (Inl ?err, ?w1)"
    using st by (simp add: consultDialog_try_def bind_def cp)
  have 3: "consultDialog 1 failingDialog planningWorld =
      Some (Inr \<lparr>desire = shouldProcess, processor = cancelOnError failingDialog ?err\<rparr>, ?w1)"
    using t [of planningWorld 1 failingDialog JUndefined ?err ?w1] ct by simp
  show ?thesis
    unfolding 1 2 3 cancel cancel2
    by (simp add: planningWorld_def emptyWorld_def)
qed

text \<open>
  A consultation of the plan that should process is handed through by
  \<open>consultDialog\<close> as it is. Its processor is run by the caller, outside the \<open>try\<close>
  blocks of \<open>consultDialog\<close> and \<open>continuePlan\<close>.
\<close>

lemma consultDialog_hands_through:
  assumes "stack (ctx w) \<noteq> []"
    and "consultPlan d (continuePlan n d) w = Some (Inr c, w1)"
    and "desire c = shouldProcess"
  shows "consultDialog n d w = Some (Inr c, w1)"
  using assms
  by (simp add: consultDialog_def tryCatch_def consultDialog_try_def bind_def ret_def)

text \<open>
  C7 on the code. The planning dialog is active, its plan has the step \<open>askName\<close>,
  the consultation of the step should process, its processor throws the error
  \<open>boom\<close>, and \<open>cancelAllDialogs\<close> never throws. \<open>consultDialog\<close> returns the
  consultation of \<open>consultPlan\<close> as it is; when the caller runs its processor, the
  error of the step leaves the processor: \<open>cancelAllDialogs\<close> is not called and the
  caller receives the exception, not a turn result. \<open>continuePlan\<close>, which runs the
  same processor inside its \<open>try\<close> block, converts the same error into
  \<open>cancelAllDialogs('error', { message, stack })\<close>.
\<close>

theorem consultDialog_processor_error_escapes:
  "\<exists>c. consultDialog 1 throwingStepDialog planningWorld
          = Some (Inr c, planningWorld\<lparr>calls := [ApplyChanges, StepConsult]\<rparr>) \<and>
       desire c = shouldProcess \<and>
       processor c (planningWorld\<lparr>calls := [ApplyChanges, StepConsult]\<rparr>)
          = Some (Inl \<lparr>message = ''boom'', errorStack = ''at step''\<rparr>,
                  planningWorld\<lparr>calls := [ApplyChanges, StepConsult, StepProcess]\<rparr>) \<and>
       continuePlan 1 throwingStepDialog planningWorld
          = Some (Inr (Some cancelledResult),
                  planningWorld\<lparr>ctx := (ctx planningWorld)\<lparr>stack := []\<rparr>,
                    calls := [ApplyChanges, StepConsult, StepProcess,
                      CancelAllDialogs ''error''
                        (JObj [(''message'', JStr ''boom''), (''stack'', JStr ''at step'')])]\<rparr>)"
proof -
  let ?err = "\<lparr>message = ''boom'', errorStack = ''at step''\<rparr>"
  let ?sc = "Some \<lparr>desire = shouldProcess,
                   processor = (\<lambda>p. (Inl ?err, p :: PlanningContext))\<rparr>"
  let ?step = "\<lparr>dialogId = ''askName'', stepOptions = JUndefined, dialogStack = None\<rparr>"
  let ?wc = "planningWorld\<lparr>calls := [ApplyChanges, StepConsult]\<rparr>"
  let ?ws = "planningWorld\<lparr>calls := [ApplyChanges, StepConsult, StepProcess]\<rparr>"
  have st: "stack (ctx planningWorld) \<noteq> []"
    by (simp add: planningWorld_def emptyWorld_def)
  have cp: "consultPlan throwingStepDialog k planningWorld =
      Some (Inr \<lparr>desire = shouldProcess,
                 processor = consultPlan_processor throwingStepDialog k
                   (getUniqueInstanceId (ctx planningWorld)) (Some ?step) ?sc\<rparr>, ?wc)" for k
    by (simp add: consultPlan_def bind_def call_def ret_def Let_def createForStep_def
        throwingStepDialog_def cancellingDialog_def planningWorld_def emptyWorld_def)
  have rs: "runStep throwingStepDialog ?sc ?wc = Some (Inl ?err, ?ws)"
    by (simp add: runStep_def bind_def currentStep_def createForStep_def ret_def call_def
        planningWorld_def emptyWorld_def)
  have pr: "consultPlan_processor throwingStepDialog k i (Some ?step) ?sc ?wc
      = Some (Inl ?err, ?ws)" for k i
    by (simp add: consultPlan_processor_def bind_def rs)
  have cd: "consultDialog 1 throwingStepDialog planningWorld =
      Some (Inr \<lparr>desire = shouldProcess,
                 processor = consultPlan_processor throwingStepDialog
                   (continuePlan 1 throwingStepDialog)
                   (getUniqueInstanceId (ctx planningWorld)) (Some ?step) ?sc\<rparr>, ?wc)"
    using st by (simp add: consultDialog_def tryCatch_def consultDialog_try_def bind_def cp ret_def)
  have cc: "cancelOnError throwingStepDialog ?err ?ws =
      Some (Inr (Some cancelledResult),
        planningWorld\<lparr>ctx := (ctx planningWorld)\<lparr>stack := []\<rparr>,
          calls := [ApplyChanges, StepConsult, StepProcess,
            CancelAllDialogs ''error''
              (JObj [(''message'', JStr ''boom''), (''stack'', JStr ''at step'')])]\<rparr>)"
    by (simp add: cancelOnError_run errorDetails_def throwingStepDialog_def cancellingDialog_def
        planningWorld_def emptyWorld_def)
  have ct: "continuePlan 1 throwingStepDialog planningWorld
      = cancelOnError throwingStepDialog ?err ?ws"
    by (simp add: tryCatch_def bind_def cp pr)
  show ?thesis
    unfolding cd ct cc using pr by simp
qed

end
